theory Spec2Isabelle
  imports Main "HOL-Library.Sublist"
begin

section \<open>Exceptions\<close>

text \<open>
  The Python exceptions the modelled code can raise: a failed \<^verbatim>\<open>assert\<close>, a list index
  out of range, \<^verbatim>\<open>int()\<close> on a string that is no number, and \<^verbatim>\<open>sys.exit(msg)\<close>.
\<close>

datatype error = AssertionError | IndexError | ValueError | SystemExit string

section \<open>Implicants (implicant.py)\<close>

text \<open>
  An implicant holds a vector with one slot per variable (\<open>Some 1\<close>: the variable occurs
  unnegated, \<open>Some 0\<close>: negated, \<open>None\<close>: no influence), the list of minterms it was
  built from, and the flag \<open>obsolete\<close>.
\<close>

record Implicant =
  vec :: "int option list"
  minterms :: "int list"
  obsolete :: bool

text \<open>\<^verbatim>\<open>__init_vec\<close>: \<^verbatim>\<open>for i in range(vnumber): vec.append(value & 1); value >>= 1\<close>.\<close>

fun init_vec :: "nat \<Rightarrow> int \<Rightarrow> int option list" where
  "init_vec 0 v = []"
| "init_vec (Suc n) v = Some (v mod 2) # init_vec n (v div 2)"

text \<open>\<^verbatim>\<open>Implicant.__init__\<close>; the value \<open>-1\<close> builds an empty implicant.\<close>

definition Implicant_init :: "nat \<Rightarrow> int \<Rightarrow> Implicant" where
  "Implicant_init vnumber v =
     \<lparr>vec = (if v \<noteq> -1 then init_vec vnumber v else []),
      minterms = (if v \<noteq> -1 then [v] else []),
      obsolete = False\<rparr>"

text \<open>\<^verbatim>\<open>__get_copy\<close>: a fresh implicant with copies of both lists; its flag is unset.\<close>

definition get_copy :: "Implicant \<Rightarrow> Implicant" where
  "get_copy self =
     (let cpy = Implicant_init (length (vec self)) (-1) in
      cpy\<lparr>vec := vec self, minterms := minterms self\<rparr>)"

text \<open>\<^verbatim>\<open>count_ones\<close>: \<^verbatim>\<open>self.vec.count(1)\<close>.\<close>

definition count_ones :: "Implicant \<Rightarrow> nat" where
  "count_ones self = count_list (vec self) (Some 1)"

text \<open>
  The loop of \<^verbatim>\<open>try_merge\<close>: \<open>i\<close> is the loop index and \<open>diffIdx\<close> the index of the one
  difference found so far (\<open>-1\<close>: none). \<open>None\<close> is the early \<^verbatim>\<open>return None\<close> at a second
  difference; otherwise the loop ends with the final \<open>diffIdx\<close>.
\<close>

function try_merge_loop :: "int option list \<Rightarrow> int option list \<Rightarrow> nat \<Rightarrow> int \<Rightarrow> int option" where
  "try_merge_loop v w i diffIdx =
     (if i < length v then
        (if v ! i = w ! i then try_merge_loop v w (Suc i) diffIdx
         else if diffIdx \<noteq> -1 then None
         else try_merge_loop v w (Suc i) (int i))
      else Some diffIdx)"
  by pat_completeness auto
termination
  by (relation "measure (\<lambda>(v, w, i, d). length v - i)") auto

declare try_merge_loop.simps [simp del]

text \<open>
  \<^verbatim>\<open>try_merge\<close>: the assertion on the lengths, the loop, then the copy of \<open>self\<close> with the
  minterms of \<open>other\<close> appended and the differing slot, if there is one, set to \<open>None\<close>.
  \<open>Inr None\<close> is Python's \<^verbatim>\<open>None\<close>.
\<close>

definition try_merge :: "Implicant \<Rightarrow> Implicant \<Rightarrow> error + Implicant option" where
  "try_merge self other =
     (if length (vec self) \<noteq> length (vec other) then Inl AssertionError
      else case try_merge_loop (vec self) (vec other) 0 (-1) of
        None \<Rightarrow> Inr None
      | Some diffIdx \<Rightarrow>
          (let newImpl = get_copy self;
               newImpl = newImpl\<lparr>minterms := minterms newImpl @ minterms other\<rparr>;
               newImpl = (if diffIdx \<noteq> -1
                          then newImpl\<lparr>vec := (vec newImpl)[nat diffIdx := None]\<rparr>
                          else newImpl)
           in Inr (Some newImpl)))"

text \<open>The slots in which the vectors of two implicants differ, in increasing order.\<close>

definition diff_slots :: "Implicant \<Rightarrow> Implicant \<Rightarrow> nat list" where
  "diff_slots self other = filter (\<lambda>i. vec self ! i \<noteq> vec other ! i) [0..<length (vec self)]"

section \<open>Implicants as objects in a store\<close>

text \<open>
  In Python an implicant is an object whose fields \<^verbatim>\<open>vec\<close> and \<^verbatim>\<open>minterms\<close> refer to list
  objects that are updated in place. To state what \<^verbatim>\<open>try_merge\<close> changes and what it
  shares, the objects live in a store: list objects and implicant objects are kept by
  address (the position in the store), a new object is appended, and an in-place update
  replaces the contents of the cell.
\<close>

record impl_obj =
  vec_ref :: nat
  minterms_ref :: nat
  obsolete_flag :: bool

record heap =
  vec_lists :: "int option list list"
  int_lists :: "int list list"
  impl_objs :: "impl_obj list"

definition new_vec_list :: "heap \<Rightarrow> int option list \<Rightarrow> nat \<times> heap" where
  "new_vec_list h xs = (length (vec_lists h), h\<lparr>vec_lists := vec_lists h @ [xs]\<rparr>)"

definition new_int_list :: "heap \<Rightarrow> int list \<Rightarrow> nat \<times> heap" where
  "new_int_list h xs = (length (int_lists h), h\<lparr>int_lists := int_lists h @ [xs]\<rparr>)"

definition new_impl_obj :: "heap \<Rightarrow> impl_obj \<Rightarrow> nat \<times> heap" where
  "new_impl_obj h ob = (length (impl_objs h), h\<lparr>impl_objs := impl_objs h @ [ob]\<rparr>)"

text \<open>\<^verbatim>\<open>self.vec\<close> and \<^verbatim>\<open>self.minterms\<close>: the contents of the lists an implicant refers to.\<close>

definition vec_of :: "heap \<Rightarrow> nat \<Rightarrow> int option list" where
  "vec_of h a = vec_lists h ! vec_ref (impl_objs h ! a)"

definition minterms_of :: "heap \<Rightarrow> nat \<Rightarrow> int list" where
  "minterms_of h a = int_lists h ! minterms_ref (impl_objs h ! a)"

text \<open>
  \<^verbatim>\<open>Implicant.__init__\<close>: two new lists and the new object; \<^verbatim>\<open>__init_vec\<close> then fills the
  new vector in place.
\<close>

definition Implicant_init_h :: "heap \<Rightarrow> nat \<Rightarrow> int \<Rightarrow> nat \<times> heap" where
  "Implicant_init_h h vnumber v =
     (let (vr, h) = new_vec_list h [];
          (mr, h) = new_int_list h (if v \<noteq> -1 then [v] else []);
          (self, h) = new_impl_obj h \<lparr>vec_ref = vr, minterms_ref = mr, obsolete_flag = False\<rparr>;
          h = (if v \<noteq> -1 then h\<lparr>vec_lists := (vec_lists h)[vr := init_vec vnumber v]\<rparr> else h)
      in (self, h))"

text \<open>
  \<^verbatim>\<open>__get_copy\<close>: a new empty implicant, whose fields are then bound to \<^verbatim>\<open>list(self.vec)\<close>
  and \<^verbatim>\<open>list(self.minterms)\<close>, two more new lists.
\<close>

definition get_copy_h :: "heap \<Rightarrow> nat \<Rightarrow> nat \<times> heap" where
  "get_copy_h h self =
     (let (cpy, h) = Implicant_init_h h (length (vec_of h self)) (-1);
          (vr, h) = new_vec_list h (vec_of h self);
          h = h\<lparr>impl_objs := (impl_objs h)[cpy := (impl_objs h ! cpy)\<lparr>vec_ref := vr\<rparr>]\<rparr>;
          (mr, h) = new_int_list h (minterms_of h self);
          h = h\<lparr>impl_objs := (impl_objs h)[cpy := (impl_objs h ! cpy)\<lparr>minterms_ref := mr\<rparr>]\<rparr>
      in (cpy, h))"

text \<open>
  \<^verbatim>\<open>try_merge\<close> on the store: \<^verbatim>\<open>newImpl.minterms += other.minterms\<close> extends the list of
  \<open>newImpl\<close> in place and \<^verbatim>\<open>newImpl.vec[diffIdx] = None\<close> updates its vector in place.
  The result is the returned reference (or the exception) and the store afterwards.
\<close>

definition try_merge_h :: "heap \<Rightarrow> nat \<Rightarrow> nat \<Rightarrow> (error + nat option) \<times> heap" where
  "try_merge_h h self other =
     (if length (vec_of h self) \<noteq> length (vec_of h other) then (Inl AssertionError, h)
      else case try_merge_loop (vec_of h self) (vec_of h other) 0 (-1) of
        None \<Rightarrow> (Inr None, h)
      | Some diffIdx \<Rightarrow>
          (let (newImpl, h) = get_copy_h h self;
               mr = minterms_ref (impl_objs h ! newImpl);
               h = h\<lparr>int_lists := (int_lists h)[mr := int_lists h ! mr @ minterms_of h other]\<rparr>;
               vr = vec_ref (impl_objs h ! newImpl);
               h = (if diffIdx \<noteq> -1
                    then h\<lparr>vec_lists := (vec_lists h)[vr := (vec_lists h ! vr)[nat diffIdx := None]]\<rparr>
                    else h)
           in (Inr (Some newImpl), h)))"

text \<open>The implicant value an object of the store stands for.\<close>

definition impl_at :: "heap \<Rightarrow> nat \<Rightarrow> Implicant" where
  "impl_at h a = \<lparr>vec = vec_of h a, minterms = minterms_of h a,
                  obsolete = obsolete_flag (impl_objs h ! a)\<rparr>"

text \<open>A reference to an implicant of the store whose two lists are in the store too.\<close>

definition wf_ref :: "heap \<Rightarrow> nat \<Rightarrow> bool" where
  "wf_ref h a = (a < length (impl_objs h) \<and> vec_ref (impl_objs h ! a) < length (vec_lists h) \<and>
                 minterms_ref (impl_objs h ! a) < length (int_lists h))"

section \<open>The minimizer (dnf.py)\<close>

text \<open>\<^verbatim>\<open>popcount\<close>: the number of ones in the binary representation of an index.\<close>

fun popcount :: "nat \<Rightarrow> nat" where
  "popcount x = (if x = 0 then 0 else x mod 2 + popcount (x div 2))"

declare popcount.simps [simp del]

record Dnf =
  groups :: "Implicant list list"
  primes :: "Implicant list"

text \<open>
  The loop of \<^verbatim>\<open>__init_groups\<close> over the indices of the truth vector; \<open>gs\<close> are the groups
  built so far. An entry other than 0 and 1 fails the assertion.
\<close>

function init_groups_loop ::
  "nat \<Rightarrow> int list \<Rightarrow> nat \<Rightarrow> Implicant list list \<Rightarrow> error + Implicant list list" where
  "init_groups_loop vnumber tv i gs =
     (if i < length tv then
        (let bit = tv ! i in
         if bit = 0 then init_groups_loop vnumber tv (Suc i) gs
         else if bit \<noteq> 1 then Inl AssertionError
         else
           (let onesCnt = popcount i in
            if onesCnt < length gs
            then init_groups_loop vnumber tv (Suc i)
                   (gs[onesCnt := gs ! onesCnt @ [Implicant_init vnumber (int i)]])
            else Inl IndexError))
      else Inr gs)"
  by pat_completeness auto
termination
  by (relation "measure (\<lambda>(vnumber, tv, i, gs). length tv - i)") auto

declare init_groups_loop.simps [simp del]

definition init_groups :: "nat \<Rightarrow> int list \<Rightarrow> error + Implicant list list" where
  "init_groups vnumber tv =
     (if length tv \<noteq> 2 ^ vnumber then Inl AssertionError
      else init_groups_loop vnumber tv 0 (replicate (vnumber + 1) []))"

text \<open>
  The innermost loop of \<^verbatim>\<open>__merge_step\<close>, \<^verbatim>\<open>for impl2 in nextGroup\<close>, for one \<open>impl1\<close>.
  The state is the flag \<open>changed\<close> and the new groups; the result also holds \<open>impl1\<close> and
  the implicants of \<open>nextGroup\<close> with the flags the loop has set on them.
\<close>

fun merge_inner ::
  "Implicant \<Rightarrow> Implicant list \<Rightarrow> bool \<times> Implicant list list \<Rightarrow>
   error + (Implicant \<times> Implicant list \<times> bool \<times> Implicant list list)" where
  "merge_inner impl1 [] (changed, newGroups) = Inr (impl1, [], changed, newGroups)"
| "merge_inner impl1 (impl2 # rest) (changed, newGroups) =
     (case try_merge impl1 impl2 of
        Inl e \<Rightarrow> Inl e
      | Inr None \<Rightarrow>
          (case merge_inner impl1 rest (changed, newGroups) of
             Inl e \<Rightarrow> Inl e
           | Inr (impl1', rest', changed', newGroups') \<Rightarrow>
               Inr (impl1', impl2 # rest', changed', newGroups'))
      | Inr (Some newImpl) \<Rightarrow>
          (let k = count_ones newImpl in
           if k < length newGroups then
             (case merge_inner (impl1\<lparr>obsolete := True\<rparr>) rest
                     (True, newGroups[k := newGroups ! k @ [newImpl]]) of
                Inl e \<Rightarrow> Inl e
              | Inr (impl1', rest', changed', newGroups') \<Rightarrow>
                  Inr (impl1', impl2\<lparr>obsolete := True\<rparr> # rest', changed', newGroups'))
           else Inl IndexError))"

text \<open>The loop \<^verbatim>\<open>for impl1 in group\<close> around it.\<close>

fun merge_pairs ::
  "Implicant list \<Rightarrow> Implicant list \<Rightarrow> bool \<times> Implicant list list \<Rightarrow>
   error + (Implicant list \<times> Implicant list \<times> bool \<times> Implicant list list)" where
  "merge_pairs [] nextGroup (changed, newGroups) = Inr ([], nextGroup, changed, newGroups)"
| "merge_pairs (impl1 # rest) nextGroup (changed, newGroups) =
     (case merge_inner impl1 nextGroup (changed, newGroups) of
        Inl e \<Rightarrow> Inl e
      | Inr (impl1', nextGroup', changed', newGroups') \<Rightarrow>
          (case merge_pairs rest nextGroup' (changed', newGroups') of
             Inl e \<Rightarrow> Inl e
           | Inr (rest', nextGroup'', changed'', newGroups'') \<Rightarrow>
               Inr (impl1' # rest', nextGroup'', changed'', newGroups'')))"

text \<open>
  The outer loop \<^verbatim>\<open>for onesCnt in range(len(self.__groups))\<close>: the pairs of the group and
  the next one are tried, then the implicants of the group that are not obsolete are
  appended to the primes.
\<close>

function merge_groups ::
  "nat \<Rightarrow> Implicant list list \<Rightarrow> bool \<Rightarrow> Implicant list list \<Rightarrow> Implicant list \<Rightarrow>
   error + (bool \<times> Implicant list list \<times> Implicant list)" where
  "merge_groups onesCnt gs changed newGroups ps =
     (if onesCnt < length gs then
        (if int onesCnt < int (length gs) - 1 then
           (case merge_pairs (gs ! onesCnt) (gs ! (onesCnt + 1)) (changed, newGroups) of
              Inl e \<Rightarrow> Inl e
            | Inr (group', nextGroup', changed', newGroups') \<Rightarrow>
                merge_groups (Suc onesCnt) (gs[onesCnt := group', onesCnt + 1 := nextGroup'])
                  changed' newGroups' (ps @ filter (\<lambda>impl. \<not> obsolete impl) group'))
         else merge_groups (Suc onesCnt) gs changed newGroups
                (ps @ filter (\<lambda>impl. \<not> obsolete impl) (gs ! onesCnt)))
      else Inr (changed, newGroups, ps))"
  by pat_completeness auto
termination
  by (relation "measure (\<lambda>(onesCnt, gs, changed, newGroups, ps). length gs - onesCnt)") auto

declare merge_groups.simps [simp del]

text \<open>\<^verbatim>\<open>__merge_step\<close>: one round; returns \<open>changed\<close> and the state with the new groups.\<close>

definition merge_step :: "Dnf \<Rightarrow> error + (bool \<times> Dnf)" where
  "merge_step self =
     (case merge_groups 0 (groups self) False (replicate (length (groups self)) []) (primes self) of
        Inl e \<Rightarrow> Inl e
      | Inr (changed, newGroups, ps) \<Rightarrow> Inr (changed, \<lparr>groups = newGroups, primes = ps\<rparr>))"

text \<open>
  \<^verbatim>\<open>__merge\<close>: \<^verbatim>\<open>while True\<close>, left at the first round that changes nothing. A run that
  never leaves the loop is the value \<open>None\<close>.
\<close>

partial_function (option) merge :: "Dnf \<Rightarrow> (error + Dnf) option" where
  "merge self =
     (case merge_step self of
        Inl e \<Rightarrow> Some (Inl e)
      | Inr (changed, self') \<Rightarrow> if changed then merge self' else Some (Inr self'))"

text \<open>The same loop, run for at most \<open>n\<close> rounds: \<open>None\<close> when \<open>n\<close> rounds do not end it.\<close>

fun merge_rounds :: "nat \<Rightarrow> Dnf \<Rightarrow> (error + Dnf) option" where
  "merge_rounds 0 self = None"
| "merge_rounds (Suc n) self =
     (case merge_step self of
        Inl e \<Rightarrow> Some (Inl e)
      | Inr (changed, self') \<Rightarrow> if changed then merge_rounds n self' else Some (Inr self'))"

text \<open>\<^verbatim>\<open>del self.primes[i]\<close>.\<close>

definition del_at :: "nat \<Rightarrow> 'a list \<Rightarrow> 'a list" where
  "del_at i xs = take i xs @ drop (Suc i) xs"

text \<open>
  The loop of \<^verbatim>\<open>__drop_unrequired_implicants\<close>: \<open>requ\<close> is the set of minterms still to be
  covered and \<open>i\<close> the position in the list of primes.
\<close>

function drop_loop :: "int set \<Rightarrow> nat \<Rightarrow> Implicant list \<Rightarrow> Implicant list" where
  "drop_loop requ i ps =
     (if i < length ps then
        (let impl = ps ! i; mtSet = set (minterms impl) in
         if mtSet \<inter> requ \<noteq> {} then drop_loop (requ - mtSet) (Suc i) ps
         else drop_loop requ i (del_at i ps))
      else ps)"
  by pat_completeness auto
termination
  by (relation "measure (\<lambda>(requ, i, ps). length ps - i)") (auto simp: del_at_def)

declare drop_loop.simps [simp del]

definition required :: "int list \<Rightarrow> int set" where
  "required tv = set (map int (filter (\<lambda>i. tv ! i = 1) [0..<length tv]))"

definition drop_unrequired_implicants :: "int list \<Rightarrow> Implicant list \<Rightarrow> Implicant list" where
  "drop_unrequired_implicants tv ps = drop_loop (required tv) 0 ps"

text \<open>
  \<^verbatim>\<open>Dnf.__init__\<close>: the groups, the merge loop, the pruning. \<open>None\<close>: the merge loop does not
  end; \<open>Some (Inl e)\<close>: an exception; \<open>Some (Inr d)\<close>: the constructed object.
\<close>

definition Dnf_init :: "nat \<Rightarrow> int list \<Rightarrow> (error + Dnf) option" where
  "Dnf_init vnumber tv =
     (case init_groups vnumber tv of
        Inl e \<Rightarrow> Some (Inl e)
      | Inr gs \<Rightarrow>
          (case merge \<lparr>groups = gs, primes = []\<rparr> of
             None \<Rightarrow> None
           | Some (Inl e) \<Rightarrow> Some (Inl e)
           | Some (Inr self) \<Rightarrow>
               Some (Inr (self\<lparr>primes := drop_unrequired_implicants tv (primes self)\<rparr>))))"

text \<open>
  The formula an implicant stands for (\<^verbatim>\<open>to_bitwise\<close>): the conjunction over the slots that
  are not \<open>None\<close> of the variable, negated when the slot is 0. Variable \<open>i\<close> is true under
  the assignment with index \<open>j\<close> when bit \<open>i\<close> of \<open>j\<close> is set.
\<close>

definition var_true :: "nat \<Rightarrow> nat \<Rightarrow> bool" where
  "var_true j i = ((j div 2 ^ i) mod 2 = 1)"

definition impl_eval :: "Implicant \<Rightarrow> nat \<Rightarrow> bool" where
  "impl_eval p j =
     list_all (\<lambda>i. case vec p ! i of
                      None \<Rightarrow> True
                    | Some b \<Rightarrow> if b = 0 then \<not> var_true j i else var_true j i)
       [0..<length (vec p)]"

text \<open>The disjunction of the conjunctions of a list of implicants.\<close>

definition dnf_eval :: "Implicant list \<Rightarrow> nat \<Rightarrow> bool" where
  "dnf_eval ps j = list_ex (\<lambda>p. impl_eval p j) ps"

text \<open>
  The pruning pass in the words of the specification: the primes are scanned in order, a
  prime is kept when its minterms meet the outstanding set, which then loses them, and is
  discarded otherwise.
\<close>

fun prune_spec :: "int set \<Rightarrow> Implicant list \<Rightarrow> Implicant list" where
  "prune_spec requ [] = []"
| "prune_spec requ (p # ps) =
     (if set (minterms p) \<inter> requ \<noteq> {}
      then p # prune_spec (requ - set (minterms p)) ps
      else prune_spec requ ps)"

subsection \<open>Notions used to state the invariants of the minimizer\<close>

text \<open>
  An assignment, given by its index \<open>j\<close>, is covered by a vector when every slot that is
  not \<open>None\<close> holds the bit of \<open>j\<close> at its position; \<open>cube\<close> is the set of the indices
  below \<open>2 ^ length v\<close> that a vector covers.
\<close>

definition covers :: "int option list \<Rightarrow> int \<Rightarrow> bool" where
  "covers v j = (\<forall>i<length v. v ! i = None \<or> v ! i = Some ((j div 2 ^ i) mod 2))"

definition cube :: "int option list \<Rightarrow> int set" where
  "cube v = {j. 0 \<le> j \<and> j < 2 ^ length v \<and> covers v j}"

definition ternary :: "int option list \<Rightarrow> bool" where
  "ternary v = (\<forall>s\<in>set v. s = None \<or> s = Some 0 \<or> s = Some 1)"

text \<open>
  An implicant is sound for the set \<open>on\<close> of the indices at which the truth vector is 1
  when its vector has one slot per variable, each 0, 1 or \<open>None\<close>, its minterms are exactly
  the assignments its vector covers, and all of them are in \<open>on\<close>.
\<close>

definition sound_impl :: "nat \<Rightarrow> int set \<Rightarrow> Implicant \<Rightarrow> bool" where
  "sound_impl vnumber on p =
     (length (vec p) = vnumber \<and> ternary (vec p) \<and> set (minterms p) = cube (vec p) \<and>
      cube (vec p) \<subseteq> on)"

text \<open>The minterms of a list of implicants, and of a list of groups.\<close>

definition minterms_of_list :: "Implicant list \<Rightarrow> int set" where
  "minterms_of_list ps = (\<Union>p\<in>set ps. set (minterms p))"

text \<open>The members of a list of groups, each with the index of its group.\<close>

definition elems :: "Implicant list list \<Rightarrow> (nat \<times> Implicant) set" where
  "elems gs = {(k, x). k < length gs \<and> x \<in> set (gs ! k)}"

text \<open>Two implicants that \<open>try_merge\<close> merges.\<close>

definition mergeable :: "Implicant \<Rightarrow> Implicant \<Rightarrow> bool" where
  "mergeable a b = (\<exists>r. try_merge a b = Inr (Some r))"

text \<open>Setting the flag \<open>obsolete\<close> on the implicants of a list that satisfy \<open>P\<close>.\<close>

definition mark :: "(Implicant \<Rightarrow> bool) \<Rightarrow> Implicant list \<Rightarrow> Implicant list" where
  "mark P xs = map (\<lambda>x. if P x then x\<lparr>obsolete := True\<rparr> else x) xs"

text \<open>
  The implicants one round creates from position \<open>i\<close> on: the merges of an implicant of
  a group with an implicant of the next group.
\<close>

definition adj_merges :: "nat \<Rightarrow> Implicant list list \<Rightarrow> Implicant set" where
  "adj_merges i gs =
     {r. \<exists>k a b. i \<le> k \<and> Suc k < length gs \<and> a \<in> set (gs ! k) \<and> b \<in> set (gs ! Suc k) \<and>
                 try_merge a b = Inr (Some r)}"

definition group_minterms :: "Implicant list list \<Rightarrow> int set" where
  "group_minterms gs = (\<Union>(k, x)\<in>elems gs. set (minterms x))"

text \<open>
  The state of the minimizer before round \<open>r\<close> (counted from 0), for \<open>vnumber\<close> variables
  and the set \<open>on\<close> of indices to cover: there is one group per number of ones, the
  implicants of group \<open>k\<close> are sound, have \<open>k\<close> ones and \<open>r\<close> slots without influence
  and are not flagged, the primes are sound, and the primes and the groups together cover
  \<open>on\<close>.
\<close>

definition round_inv :: "nat \<Rightarrow> int set \<Rightarrow> nat \<Rightarrow> Dnf \<Rightarrow> bool" where
  "round_inv vnumber on r d =
     (length (groups d) = vnumber + 1 \<and>
      (\<forall>k<length (groups d). \<forall>x\<in>set (groups d ! k).
          sound_impl vnumber on x \<and> count_ones x = k \<and> count_list (vec x) None = r \<and>
          \<not> obsolete x) \<and>
      (\<forall>p\<in>set (primes d). sound_impl vnumber on p) \<and>
      on \<subseteq> minterms_of_list (primes d) \<union> group_minterms (groups d))"

text \<open>
  The number of rounds of the merge loop that report a change, when the loop ends within
  \<open>n\<close> rounds; the round that ends the loop reports none.
\<close>

fun changed_rounds :: "nat \<Rightarrow> Dnf \<Rightarrow> nat option" where
  "changed_rounds 0 self = None"
| "changed_rounds (Suc n) self =
     (case merge_step self of
        Inl e \<Rightarrow> Some 0
      | Inr (changed, self') \<Rightarrow>
          if changed then map_option Suc (changed_rounds n self') else Some 0)"

section \<open>The parser (parse.py)\<close>

subsection \<open>Expression nodes\<close>

text \<open>
  Modelled from the spec: the class \<^verbatim>\<open>Node\<close> and the enumeration \<^verbatim>\<open>NodeType\<close> are imported
  by parse.py from a module that is not among the sources. A node has a kind, an ordered list of
  children, an integer payload (for a constant), a name (for a variable), and the modulus
  and the reduce-constants flag it was constructed with. \<^verbatim>\<open>Node(t, modulus, modRed)\<close>
  makes a node without children, with payload 0 and an empty name.
\<close>

datatype NodeType =
  CONSTANT | VARIABLE | POWER | NEGATION | PRODUCT | SUMMATION | CONJUNCTION |
  EXCL_DISJUNCTION | INCL_DISJUNCTION

datatype Node =
  Node (ntype: NodeType) (node_modulus: int) (node_modRed: bool) (children: "Node list")
       (nconstant: int) (vname: string)

definition Node_init :: "NodeType \<Rightarrow> int \<Rightarrow> bool \<Rightarrow> Node" where
  "Node_init t m r = Node t m r [] 0 []"

text \<open>Assignments to the fields of a node.\<close>

fun set_children :: "Node \<Rightarrow> Node list \<Rightarrow> Node" where
  "set_children (Node t m r cs k v) cs' = Node t m r cs' k v"

fun set_constant :: "Node \<Rightarrow> int \<Rightarrow> Node" where
  "set_constant (Node t m r cs k v) k' = Node t m r cs k' v"

fun set_vname :: "Node \<Rightarrow> string \<Rightarrow> Node" where
  "set_vname (Node t m r cs k v) v' = Node t m r cs k v'"

text \<open>\<^verbatim>\<open>node.children.append(child)\<close>.\<close>

definition append_child :: "Node \<Rightarrow> Node \<Rightarrow> Node" where
  "append_child node child = set_children node (children node @ [child])"

subsection \<open>The state of the parser and its character tests\<close>

record parser =
  expr :: string
  modulus :: int
  modRed :: bool
  idx :: nat
  error :: string

text \<open>\<^verbatim>\<open>Parser.__init__\<close>. The argument \<open>modulus\<close> is not used: the field is set to 32.\<close>

definition Parser_init :: "string \<Rightarrow> int \<Rightarrow> bool \<Rightarrow> parser" where
  "Parser_init e m r = \<lparr>expr = e, modulus = 32, modRed = r, idx = 0, error = []\<rparr>"

definition new_node :: "parser \<Rightarrow> NodeType \<Rightarrow> Node" where
  "new_node self t = Node_init t (modulus self) (modRed self)"

text \<open>\<^verbatim>\<open>__peek\<close> and \<^verbatim>\<open>__peek_next\<close>: a string of one character, or the empty string.\<close>

definition peek :: "parser \<Rightarrow> string" where
  "peek self = (if idx self \<ge> length (expr self) then [] else [expr self ! idx self])"

definition peek_next :: "parser \<Rightarrow> string" where
  "peek_next self =
     (if int (idx self) \<ge> int (length (expr self)) - 1 then [] else [expr self ! (idx self + 1)])"

definition has_space :: "parser \<Rightarrow> bool" where
  "has_space self = (peek self = '' '')"

definition skip_space :: "parser \<Rightarrow> parser" where
  "skip_space self = self\<lparr>idx := idx self + 1\<rparr>"

text \<open>The loop \<^verbatim>\<open>while self.__has_space(): self.__skip_space()\<close>.\<close>

function skip_spaces :: "parser \<Rightarrow> parser" where
  "skip_spaces self = (if has_space self then skip_spaces (skip_space self) else self)"
  by pat_completeness auto
termination
  by (relation "measure (\<lambda>self. length (expr self) - idx self)")
     (auto simp: has_space_def peek_def skip_space_def split: if_splits)

declare skip_spaces.simps [simp del]

text \<open>\<^verbatim>\<open>__get(skipSpace)\<close>: the character at the position and the state after it.\<close>

definition get :: "bool \<Rightarrow> parser \<Rightarrow> string \<times> parser" where
  "get skipSpace self =
     (let c = peek self;
          self = self\<lparr>idx := idx self + 1\<rparr>;
          self = (if skipSpace then skip_spaces self else self)
      in (c, self))"

text \<open>The regular expressions \<^verbatim>\<open>[0-9]\<close>, \<^verbatim>\<open>[a-zA-Z]\<close> and \<^verbatim>\<open>[a-fA-F]\<close>, matched against \<^verbatim>\<open>__peek()\<close>.\<close>

definition has_decimal_digit :: "parser \<Rightarrow> bool" where
  "has_decimal_digit self =
     (case peek self of [c] \<Rightarrow> c \<in> set ''0123456789'' | _ \<Rightarrow> False)"

definition has_letter :: "parser \<Rightarrow> bool" where
  "has_letter self =
     (case peek self of
        [c] \<Rightarrow> c \<in> set ''abcdefghijklmnopqrstuvwxyzABCDEFGHIJKLMNOPQRSTUVWXYZ''
      | _ \<Rightarrow> False)"

definition has_hex_digit :: "parser \<Rightarrow> bool" where
  "has_hex_digit self =
     (has_decimal_digit self \<or> (case peek self of [c] \<Rightarrow> c \<in> set ''abcdefABCDEF'' | _ \<Rightarrow> False))"

definition has_variable :: "parser \<Rightarrow> bool" where
  "has_variable self = has_letter self"

definition has_bitwise_negated_expression :: "parser \<Rightarrow> bool" where
  "has_bitwise_negated_expression self = (peek self = ''~'')"

definition has_negative_expression :: "parser \<Rightarrow> bool" where
  "has_negative_expression self = (peek self = ''-'')"

definition has_multiplicator :: "parser \<Rightarrow> bool" where
  "has_multiplicator self = (peek self = ''*'' \<and> peek_next self \<noteq> ''*'')"

definition has_power :: "parser \<Rightarrow> bool" where
  "has_power self = (peek self = ''*'' \<and> peek_next self = ''*'')"

definition has_lshift :: "parser \<Rightarrow> bool" where
  "has_lshift self = (peek self = ''<'' \<and> peek_next self = ''<'')"

definition has_binary_constant :: "parser \<Rightarrow> bool" where
  "has_binary_constant self = (peek self = ''0'' \<and> peek_next self = ''b'')"

definition has_hex_constant :: "parser \<Rightarrow> bool" where
  "has_hex_constant self = (peek self = ''0'' \<and> peek_next self = ''x'')"

subsection \<open>Strings: slices, \<^verbatim>\<open>rstrip\<close> and \<^verbatim>\<open>int\<close>\<close>

text \<open>\<^verbatim>\<open>s[a:b]\<close> for positions that are not negative.\<close>

definition slice :: "string \<Rightarrow> nat \<Rightarrow> nat \<Rightarrow> string" where
  "slice s a b = take (b - a) (drop a s)"

text \<open>The characters (below 256) that Python's \<^verbatim>\<open>str.rstrip()\<close> strips.\<close>

definition is_py_space :: "char \<Rightarrow> bool" where
  "is_py_space c = ((of_char c :: nat) \<in> {9, 10, 11, 12, 13, 28, 29, 30, 31, 32, 133, 160})"

definition rstrip :: "string \<Rightarrow> string" where
  "rstrip s = rev (dropWhile is_py_space (rev s))"

text \<open>The value of a digit, for the bases up to 16.\<close>

definition digit_val :: "char \<Rightarrow> nat option" where
  "digit_val c =
     (let n = (of_char c :: nat) in
      if 48 \<le> n \<and> n \<le> 57 then Some (n - 48)
      else if 97 \<le> n \<and> n \<le> 102 then Some (n - 87)
      else if 65 \<le> n \<and> n \<le> 70 then Some (n - 55)
      else None)"

text \<open>
  \<^verbatim>\<open>int(s, base)\<close> on a string of digits: the parser only passes runs of digits of the
  base. Anything else is a \<^verbatim>\<open>ValueError\<close>, here \<open>None\<close>.
\<close>

fun py_int_acc :: "int \<Rightarrow> string \<Rightarrow> nat \<Rightarrow> int option" where
  "py_int_acc acc [] base = Some acc"
| "py_int_acc acc (c # cs) base =
     (case digit_val c of
        None \<Rightarrow> None
      | Some d \<Rightarrow> if d < base then py_int_acc (acc * int base + int d) cs base else None)"

definition py_int :: "string \<Rightarrow> nat \<Rightarrow> int option" where
  "py_int s base = (if s = [] then None else py_int_acc 0 s base)"

subsection \<open>Variables and numeric literals\<close>

text \<open>The loops that consume a run of characters with \<^verbatim>\<open>self.__get(False)\<close>.\<close>

function skip_name_chars :: "parser \<Rightarrow> parser" where
  "skip_name_chars self =
     (if has_decimal_digit self \<or> has_letter self \<or> peek self = ''_''
      then skip_name_chars (snd (get False self)) else self)"
  by pat_completeness auto
termination
  by (relation "measure (\<lambda>self. length (expr self) - idx self)")
     (auto simp: has_decimal_digit_def has_letter_def peek_def get_def split: if_splits)

function skip_decimal_digits :: "parser \<Rightarrow> parser" where
  "skip_decimal_digits self =
     (if has_decimal_digit self then skip_decimal_digits (snd (get False self)) else self)"
  by pat_completeness auto
termination
  by (relation "measure (\<lambda>self. length (expr self) - idx self)")
     (auto simp: has_decimal_digit_def peek_def get_def split: if_splits)

function skip_binary_digits :: "parser \<Rightarrow> parser" where
  "skip_binary_digits self =
     (if peek self \<in> {''0'', ''1''} then skip_binary_digits (snd (get False self)) else self)"
  by pat_completeness auto
termination
  by (relation "measure (\<lambda>self. length (expr self) - idx self)")
     (auto simp: peek_def get_def split: if_splits)

function skip_hex_digits :: "parser \<Rightarrow> parser" where
  "skip_hex_digits self =
     (if has_hex_digit self then skip_hex_digits (snd (get False self)) else self)"
  by pat_completeness auto
termination
  by (relation "measure (\<lambda>self. length (expr self) - idx self)")
     (auto simp: has_hex_digit_def has_decimal_digit_def peek_def get_def split: if_splits)

declare skip_name_chars.simps [simp del]
declare skip_decimal_digits.simps [simp del]
declare skip_binary_digits.simps [simp del]
declare skip_hex_digits.simps [simp del]

text \<open>
  What a method of the parser returns: an exception, or the returned node (\<open>None\<close> is
  Python's \<^verbatim>\<open>None\<close>) with the state of the parser after the call.
\<close>

type_synonym outcome = "error + Node option \<times> parser"

text \<open>
  \<^verbatim>\<open>__parse_variable\<close>. Where the index in brackets is not closed, \<^verbatim>\<open>None\<close> is returned and
  \<^verbatim>\<open>__error\<close> is left as it was.
\<close>

definition parse_variable :: "parser \<Rightarrow> outcome" where
  "parse_variable self =
     (let start = idx self;
          self = snd (get False self);
          self = skip_name_chars self
      in if peek self = ''[''
         then (let self = snd (get False self);
                   self = skip_decimal_digits self
               in if peek self = '']''
                  then (let self = snd (get True self)
                        in Inr (Some (set_vname (new_node self VARIABLE)
                                        (rstrip (slice (expr self) start (idx self)))), self))
                  else Inr (None, self))
         else (let self = skip_spaces self
               in Inr (Some (set_vname (new_node self VARIABLE)
                               (rstrip (slice (expr self) start (idx self)))), self)))"

text \<open>\<^verbatim>\<open>__get_constant\<close>.\<close>

definition get_constant :: "parser \<Rightarrow> nat \<Rightarrow> nat \<Rightarrow> error + int" where
  "get_constant self start base =
     (case py_int (rstrip (slice (expr self) start (idx self))) base of
        None \<Rightarrow> Inl ValueError
      | Some n \<Rightarrow> Inr n)"

text \<open>The end of the three literal parsers: the new CONSTANT node with its payload.\<close>

definition constant_node :: "parser \<Rightarrow> nat \<Rightarrow> nat \<Rightarrow> outcome" where
  "constant_node self start base =
     (case get_constant self start base of
        Inl e \<Rightarrow> Inl e
      | Inr n \<Rightarrow> Inr (Some (set_constant (new_node self CONSTANT) n), self))"

definition parse_binary_constant :: "parser \<Rightarrow> outcome" where
  "parse_binary_constant self =
     (let self = snd (get False self);
          self = snd (get False self)
      in if peek self \<notin> {''0'', ''1''}
         then Inr (None, self\<lparr>error := ''Invalid binary digit near to '' @ peek self\<rparr>)
         else (let start = idx self;
                   self = skip_binary_digits self;
                   self = skip_spaces self
               in constant_node self start 2))"

definition parse_hex_constant :: "parser \<Rightarrow> outcome" where
  "parse_hex_constant self =
     (let self = snd (get False self);
          self = snd (get False self)
      in if \<not> has_hex_digit self
         then Inr (None, self\<lparr>error := ''Invalid hex digit near to '' @ peek self\<rparr>)
         else (let start = idx self;
                   self = skip_hex_digits self;
                   self = skip_spaces self
               in constant_node self start 16))"

definition parse_decimal_constant :: "parser \<Rightarrow> outcome" where
  "parse_decimal_constant self =
     (if \<not> has_decimal_digit self
      then Inr (None, self\<lparr>error := ''Expecting constant at '' @ peek self @
                                       '', but no digit around.''\<rparr>)
      else (let start = idx self;
                self = skip_decimal_digits self;
                self = skip_spaces self
            in constant_node self start 10))"

definition parse_constant :: "parser \<Rightarrow> outcome" where
  "parse_constant self =
     (if has_binary_constant self then parse_binary_constant self
      else if has_hex_constant self then parse_hex_constant self
      else parse_decimal_constant self)"

subsection \<open>Negation\<close>

text \<open>
  \<^verbatim>\<open>__multiply_by_minus_one\<close>. \<^verbatim>\<open>node.children[0]\<close> of a product without children raises
  \<^verbatim>\<open>IndexError\<close>.
\<close>

definition multiply_by_minus_one :: "parser \<Rightarrow> Node \<Rightarrow> error + Node" where
  "multiply_by_minus_one self node =
     (if ntype node = CONSTANT then Inr (set_constant node (- nconstant node))
      else if ntype node = PRODUCT then
        (case children node of
           [] \<Rightarrow> Inl IndexError
         | c # cs \<Rightarrow>
             if ntype c = CONSTANT
             then Inr (set_children node (set_constant c (nconstant c * (-1)) # cs))
             else Inr (set_children node
                         (set_constant (new_node self CONSTANT) (-1) # children node)))
      else Inr (set_children (new_node self PRODUCT)
                  [set_constant (new_node self CONSTANT) (-1), node]))"

subsection \<open>The grammar\<close>

text \<open>
  The methods of the grammar call each other recursively, so they are one function
  \<open>grammar\<close> with the method as an argument; the \<^verbatim>\<open>while\<close> loops of the methods are
  methods of their own, with the node under construction as argument. \<open>grammar\<close> takes a
  bound \<open>n\<close> on the depth of the calls still allowed, every call and every turn of a
  loop using one, and returns \<open>None\<close> when the bound is used up; otherwise it returns
  \<open>Some\<close> outcome. \<open>on_node\<close> is the pattern
  \<^verbatim>\<open>child = self.__parse_x(); if child == None: return None\<close>: it passes an exception, a
  \<^verbatim>\<open>None\<close> and a used-up bound on and continues with the node otherwise.
\<close>

definition on_node :: "outcome option \<Rightarrow> (Node \<Rightarrow> parser \<Rightarrow> outcome option) \<Rightarrow> outcome option" where
  "on_node r f =
     (case r of
        None \<Rightarrow> None
      | Some (Inl e) \<Rightarrow> Some (Inl e)
      | Some (Inr (None, self)) \<Rightarrow> Some (Inr (None, self))
      | Some (Inr (Some node, self)) \<Rightarrow> f node self)"

text \<open>Returning a node, and returning \<^verbatim>\<open>None\<close> after setting \<^verbatim>\<open>self.__error\<close>.\<close>

definition return_node :: "Node \<Rightarrow> parser \<Rightarrow> outcome option" where
  "return_node node self = Some (Inr (Some node, self))"

definition fail_with :: "string \<Rightarrow> parser \<Rightarrow> outcome option" where
  "fail_with msg self = Some (Inr (None, self\<lparr>error := msg\<rparr>))"

datatype parse_method =
    Parse_inclusive_disjunction | Inclusive_disjunction_loop Node
  | Parse_exclusive_disjunction | Exclusive_disjunction_loop Node
  | Parse_conjunction | Conjunction_loop Node
  | Parse_shift
  | Parse_sum | Sum_loop Node
  | Parse_product | Product_loop Node
  | Parse_factor | Parse_bitwise_negated_expression | Parse_negative_expression
  | Parse_power | Parse_terminal

primrec grammar :: "nat \<Rightarrow> parse_method \<Rightarrow> parser \<Rightarrow> outcome option" where
  "grammar 0 m self = None"
| "grammar (Suc n) m self =
    (case m of
       Parse_inclusive_disjunction \<Rightarrow>
         on_node (grammar n Parse_exclusive_disjunction self) (\<lambda>child self.
           if peek self \<noteq> ''|'' then return_node child self
           else grammar n (Inclusive_disjunction_loop
                   (append_child (new_node self INCL_DISJUNCTION) child)) self)
     | Inclusive_disjunction_loop node \<Rightarrow>
         if peek self = ''|'' then
           on_node (grammar n Parse_exclusive_disjunction (snd (get True self))) (\<lambda>child self.
             grammar n (Inclusive_disjunction_loop (append_child node child)) self)
         else return_node node self
     | Parse_exclusive_disjunction \<Rightarrow>
         on_node (grammar n Parse_conjunction self) (\<lambda>child self.
           if peek self \<noteq> ''^'' then return_node child self
           else grammar n (Exclusive_disjunction_loop
                   (append_child (new_node self EXCL_DISJUNCTION) child)) self)
     | Exclusive_disjunction_loop node \<Rightarrow>
         if peek self = ''^'' then
           on_node (grammar n Parse_conjunction (snd (get True self))) (\<lambda>child self.
             grammar n (Exclusive_disjunction_loop (append_child node child)) self)
         else return_node node self
     | Parse_conjunction \<Rightarrow>
         on_node (grammar n Parse_shift self) (\<lambda>child self.
           if peek self \<noteq> ''&'' then return_node child self
           else grammar n (Conjunction_loop
                   (append_child (new_node self CONJUNCTION) child)) self)
     | Conjunction_loop node \<Rightarrow>
         if peek self = ''&'' then
           on_node (grammar n Parse_shift (snd (get True self))) (\<lambda>child self.
             grammar n (Conjunction_loop (append_child node child)) self)
         else return_node node self
     | Parse_shift \<Rightarrow>
         on_node (grammar n Parse_sum self) (\<lambda>base self.
           if \<not> has_lshift self then return_node base self
           else
             (let prod = append_child (new_node self PRODUCT) base;
                  self = snd (get True self);
                  self = snd (get True self)
              in on_node (grammar n Parse_sum self) (\<lambda>op self.
                   (let power = new_node self POWER;
                        two = set_constant (new_node self CONSTANT) 2;
                        power = append_child power two;
                        power = append_child power op;
                        prod = append_child prod power
                    in if has_lshift self
                       then fail_with (''Disallowed nested lshift operator near '' @ peek self) self
                       else return_node prod self))))
     | Parse_sum \<Rightarrow>
         on_node (grammar n Parse_product self) (\<lambda>child self.
           if peek self \<noteq> ''+'' \<and> peek self \<noteq> ''-'' then return_node child self
           else grammar n (Sum_loop (append_child (new_node self SUMMATION) child)) self)
     | Sum_loop node \<Rightarrow>
         if peek self = ''+'' \<or> peek self = ''-'' then
           (let negative = (peek self = ''-'')
            in on_node (grammar n Parse_product (snd (get True self))) (\<lambda>child self.
                 if negative then
                   (case multiply_by_minus_one self child of
                      Inl e \<Rightarrow> Some (Inl e)
                    | Inr child' \<Rightarrow> grammar n (Sum_loop (append_child node child')) self)
                 else grammar n (Sum_loop (append_child node child)) self))
         else return_node node self
     | Parse_product \<Rightarrow>
         on_node (grammar n Parse_factor self) (\<lambda>child self.
           if \<not> has_multiplicator self then return_node child self
           else grammar n (Product_loop (append_child (new_node self PRODUCT) child)) self)
     | Product_loop node \<Rightarrow>
         if has_multiplicator self then
           on_node (grammar n Parse_factor (snd (get True self))) (\<lambda>child self.
             grammar n (Product_loop (append_child node child)) self)
         else return_node node self
     | Parse_factor \<Rightarrow>
         if has_bitwise_negated_expression self
         then grammar n Parse_bitwise_negated_expression self
         else if has_negative_expression self
         then grammar n Parse_negative_expression self
         else grammar n Parse_power self
     | Parse_bitwise_negated_expression \<Rightarrow>
         (let self = snd (get True self);
              node = new_node self NEGATION
          in on_node (grammar n Parse_factor self) (\<lambda>child self.
               return_node (set_children node [child]) self))
     | Parse_negative_expression \<Rightarrow>
         (let self = snd (get True self)
          in on_node (grammar n Parse_factor self) (\<lambda>node self.
               case multiply_by_minus_one self node of
                 Inl e \<Rightarrow> Some (Inl e)
               | Inr node' \<Rightarrow> return_node node' self))
     | Parse_power \<Rightarrow>
         on_node (grammar n Parse_terminal self) (\<lambda>base self.
           if \<not> has_power self then return_node base self
           else
             (let node = append_child (new_node self POWER) base;
                  self = snd (get True self);
                  self = snd (get True self)
              in on_node (grammar n Parse_terminal self) (\<lambda>exp self.
                   (let node = append_child node exp
                    in if has_power self
                       then fail_with (''Disallowed nested power operator near '' @ peek self) self
                       else return_node node self))))
     | Parse_terminal \<Rightarrow>
         if peek self = ''('' then
           (let self = snd (get True self)
            in on_node (grammar n Parse_inclusive_disjunction self) (\<lambda>node self.
                 if \<not> peek self = '')''
                 then fail_with (''Missing closing parentheses near to '' @ peek self) self
                 else return_node node (snd (get True self))))
         else if has_variable self then Some (parse_variable self)
         else Some (parse_constant self))"

text \<open>The methods by their names.\<close>

abbreviation parse_inclusive_disjunction :: "nat \<Rightarrow> parser \<Rightarrow> outcome option" where
  "parse_inclusive_disjunction n self \<equiv> grammar n Parse_inclusive_disjunction self"

abbreviation parse_shift :: "nat \<Rightarrow> parser \<Rightarrow> outcome option" where
  "parse_shift n self \<equiv> grammar n Parse_shift self"

abbreviation parse_sum :: "nat \<Rightarrow> parser \<Rightarrow> outcome option" where
  "parse_sum n self \<equiv> grammar n Parse_sum self"

abbreviation parse_power :: "nat \<Rightarrow> parser \<Rightarrow> outcome option" where
  "parse_power n self \<equiv> grammar n Parse_power self"

abbreviation parse_terminal :: "nat \<Rightarrow> parser \<Rightarrow> outcome option" where
  "parse_terminal n self \<equiv> grammar n Parse_terminal self"

abbreviation parse_negative_expression :: "nat \<Rightarrow> parser \<Rightarrow> outcome option" where
  "parse_negative_expression n self \<equiv> grammar n Parse_negative_expression self"

subsection \<open>The whole expression\<close>

text \<open>
  The bound \<open>parse_bound\<close> is enough for every expression: each call that is made without
  a character having been consumed goes to a method of higher precedence, of which there
  are fewer than 10, and every turn of a loop consumes a character.
\<close>

definition parse_bound :: "string \<Rightarrow> nat" where
  "parse_bound e = 10 * length e + 10"

text \<open>\<^verbatim>\<open>parse_expression\<close>: only one leading space is skipped before the expression.\<close>

function skip_trailing_spaces :: "parser \<Rightarrow> parser" where
  "skip_trailing_spaces self =
     (if idx self < length (expr self) \<and> has_space self
      then skip_trailing_spaces (skip_space self) else self)"
  by pat_completeness auto
termination
  by (relation "measure (\<lambda>self. length (expr self) - idx self)")
     (auto simp: skip_space_def)

declare skip_trailing_spaces.simps [simp del]

definition parse_expression :: "parser \<Rightarrow> outcome option" where
  "parse_expression self =
     (let self = (if has_space self then skip_space self else self)
      in case parse_inclusive_disjunction (parse_bound (expr self)) self of
           None \<Rightarrow> None
         | Some (Inl e) \<Rightarrow> Some (Inl e)
         | Some (Inr (root, self)) \<Rightarrow>
             (let self = skip_trailing_spaces self
              in if idx self \<noteq> length (expr self)
                 then Some (Inr (None, self\<lparr>error := ''Finished near to '' @ peek self @
                                           '' before everything was parsed''\<rparr>))
                 else Some (Inr (root, self))))"

text \<open>
  \<^verbatim>\<open>parse\<close>. The methods \<^verbatim>\<open>refine\<close> and \<^verbatim>\<open>mark_linear\<close> of \<^verbatim>\<open>Node\<close> are not among the
  sources; they change the tree in place and are parameters here. The result is an
  exception (\<^verbatim>\<open>sys.exit\<close> is \<open>SystemExit\<close>) or the returned root.
\<close>

definition parse ::
  "(Node \<Rightarrow> Node) \<Rightarrow> (Node \<Rightarrow> Node) \<Rightarrow> string \<Rightarrow> nat \<Rightarrow> bool \<Rightarrow> bool \<Rightarrow> bool \<Rightarrow>
   (error + Node option) option" where
  "parse refine_method mark_linear_method e bitCount reduceConstants refine marklinear =
     (let parser = Parser_init e (2 ^ bitCount) reduceConstants
      in case parse_expression parser of
           None \<Rightarrow> None
         | Some (Inl exc) \<Rightarrow> Some (Inl exc)
         | Some (Inr (root, parser)) \<Rightarrow>
             (let root = (if root \<noteq> None \<and> refine then map_option refine_method root else root)
              in if root \<noteq> None \<and> marklinear then
                   (if \<not> refine
                    then Some (Inl (SystemExit ''Error: Refine before marking linear subexpressions!''))
                    else Some (Inr (map_option mark_linear_method root)))
                 else Some (Inr root)))"

text \<open>
  The precedence level of a method, used to show that \<open>parse_bound\<close> is enough: a call made
  before any character is consumed goes to a method of a lower level.
\<close>

fun method_level :: "parse_method \<Rightarrow> nat" where
  "method_level Parse_inclusive_disjunction = 9"
| "method_level Parse_exclusive_disjunction = 8"
| "method_level Parse_conjunction = 7"
| "method_level Parse_shift = 6"
| "method_level Parse_sum = 5"
| "method_level Parse_product = 4"
| "method_level Parse_factor = 3"
| "method_level Parse_power = 2"
| "method_level Parse_bitwise_negated_expression = 2"
| "method_level Parse_negative_expression = 2"
| "method_level Parse_terminal = 1"
| "method_level (Inclusive_disjunction_loop node) = 1"
| "method_level (Exclusive_disjunction_loop node) = 1"
| "method_level (Conjunction_loop node) = 1"
| "method_level (Sum_loop node) = 1"
| "method_level (Product_loop node) = 1"

section \<open>Properties of the implicants\<close>

lemma try_merge_loop_char:
  "try_merge_loop v w i d =
     (let ds = filter (\<lambda>k. v ! k \<noteq> w ! k) [i..<length v] in
      if d \<noteq> -1 then (if ds = [] then Some d else None)
      else (case ds of [] \<Rightarrow> Some (-1) | [k] \<Rightarrow> Some (int k) | _ \<Rightarrow> None))"
proof (induction v w i d rule: try_merge_loop.induct)
  case (1 v w i d)
  show ?case
  proof (cases "i < length v")
    case False
    then show ?thesis by (simp add: try_merge_loop.simps[of v w i d])
  next
    case True
    then have upt: "[i..<length v] = i # [Suc i..<length v]"
      by (simp add: upt_conv_Cons)
    show ?thesis
    proof (cases "v ! i = w ! i")
      case same: True
      with True 1(1) upt show ?thesis
        by (simp add: try_merge_loop.simps[of v w i d])
    next
      case diff: False
      show ?thesis
      proof (cases "d = -1")
        case True
        with diff \<open>i < length v\<close> 1(2) upt show ?thesis
          by (simp add: try_merge_loop.simps[of v w i "-1"] Let_def split: list.splits)
      next
        case False
        with diff \<open>i < length v\<close> upt show ?thesis
          by (simp add: try_merge_loop.simps[of v w i d])
      qed
    qed
  qed
qed

lemma try_merge_loop_start:
  "try_merge_loop (vec a) (vec b) 0 (-1) =
     (case diff_slots a b of [] \<Rightarrow> Some (-1) | [k] \<Rightarrow> Some (int k) | _ \<Rightarrow> None)"
  by (simp add: try_merge_loop_char diff_slots_def)

lemma try_merge_result:
  assumes len: "length (vec a) = length (vec b)"
  shows "try_merge a b =
     (case diff_slots a b of
        [] \<Rightarrow> Inr (Some \<lparr>vec = vec a, minterms = minterms a @ minterms b, obsolete = False\<rparr>)
      | [k] \<Rightarrow> Inr (Some \<lparr>vec = (vec a)[k := None], minterms = minterms a @ minterms b,
                            obsolete = False\<rparr>)
      | _ \<Rightarrow> Inr None)"
  using len
  by (simp add: try_merge_def try_merge_loop_start get_copy_def Implicant_init_def Let_def
      split: list.splits)

lemma diff_slots_single:
  assumes "diff_slots a b = [k]"
  shows "k < length (vec a)" and "vec a ! k \<noteq> vec b ! k"
    and "\<And>i. i < length (vec a) \<Longrightarrow> i \<noteq> k \<Longrightarrow> vec a ! i = vec b ! i"
proof -
  have s: "set (diff_slots a b) = {k}" using assms by simp
  then have "k \<in> set (diff_slots a b)" by simp
  then show "k < length (vec a)" and "vec a ! k \<noteq> vec b ! k"
    by (auto simp: diff_slots_def)
  fix i assume "i < length (vec a)" "i \<noteq> k"
  with s show "vec a ! i = vec b ! i"
    by (auto simp: diff_slots_def)
qed

lemma diff_slots_empty:
  assumes "diff_slots a b = []" and "i < length (vec a)"
  shows "vec a ! i = vec b ! i"
proof (rule ccontr)
  assume "vec a ! i \<noteq> vec b ! i"
  with assms(2) have "i \<in> set (diff_slots a b)" by (simp add: diff_slots_def)
  with assms(1) show False by simp
qed


subsection \<open>Claim C2: when two implicants merge\<close>

text \<open>
  Claim C2, as amended. For two implicants with vectors of equal length, \<open>try_merge\<close>
  returns a merged implicant if and only if the vectors differ in at most one slot, where
  slots are compared by equality and a slot without influence is a value like any other;
  it returns \<open>None\<close> if and only if they differ in two or more slots; it never raises.
  The minterms of a merged implicant are those of both operands, its vector has the length
  of the operands', holds \<open>None\<close> in the slot where they differ (if there is one) and
  agrees with both operands in every other slot.
\<close>

theorem try_merge_at_most_one_difference:
  assumes len: "length (vec a) = length (vec b)"
  shows "((\<exists>r. try_merge a b = Inr (Some r)) \<longleftrightarrow> length (diff_slots a b) \<le> 1) \<and>
         (try_merge a b = Inr None \<longleftrightarrow> 2 \<le> length (diff_slots a b)) \<and>
         (\<forall>r. try_merge a b = Inr (Some r) \<longrightarrow>
             set (minterms r) = set (minterms a) \<union> set (minterms b) \<and>
             length (vec r) = length (vec a) \<and>
             (\<forall>i<length (vec a).
                 vec r ! i = (if i \<in> set (diff_slots a b) then None else vec a ! i) \<and>
                 (i \<notin> set (diff_slots a b) \<longrightarrow> vec r ! i = vec b ! i)))"
proof (cases "diff_slots a b")
  case Nil
  with len diff_slots_empty[of a b] show ?thesis
    by (simp add: try_merge_result)
next
  case (Cons k ks)
  show ?thesis
  proof (cases ks)
    case Nil
    with Cons have one: "diff_slots a b = [k]" by simp
    from diff_slots_single[OF one] len one show ?thesis
      by (auto simp: try_merge_result nth_list_update)
  next
    case (Cons k' ks')
    with \<open>diff_slots a b = k # ks\<close> len show ?thesis
      by (simp add: try_merge_result)
  qed
qed

text \<open>
  Claim C2 as stated fails on the code: two implicants with identical vectors (no
  difference at all) are merged, and so are two implicants whose only difference is a slot
  that has no influence in the first.
\<close>

theorem try_merge_zero_differences_counterexample:
  "length (vec (Implicant_init 1 0)) = length (vec (Implicant_init 1 0)) \<and>
   diff_slots (Implicant_init 1 0) (Implicant_init 1 0) = [] \<and>
   try_merge (Implicant_init 1 0) (Implicant_init 1 0) =
     Inr (Some \<lparr>vec = [Some 0], minterms = [0, 0], obsolete = False\<rparr>) \<and>
   diff_slots \<lparr>vec = [None], minterms = [0, 1], obsolete = False\<rparr> (Implicant_init 1 1) = [0] \<and>
   try_merge \<lparr>vec = [None], minterms = [0, 1], obsolete = False\<rparr> (Implicant_init 1 1) =
     Inr (Some \<lparr>vec = [None], minterms = [0, 1, 1], obsolete = False\<rparr>)"
  by (simp add: try_merge_def Implicant_init_def try_merge_loop.simps get_copy_def
      diff_slots_def)

theorem try_merge_at_most_one_difference_witness:
  "length (vec (Implicant_init 2 1)) = length (vec (Implicant_init 2 3)) \<and>
   length (diff_slots (Implicant_init 2 1) (Implicant_init 2 3)) \<le> 1 \<and>
   (\<exists>r. try_merge (Implicant_init 2 1) (Implicant_init 2 3) = Inr (Some r))"
proof -
  have len: "length (vec (Implicant_init 2 1)) = length (vec (Implicant_init 2 3))"
    by (simp add: Implicant_init_def numeral_2_eq_2)
  have d: "length (diff_slots (Implicant_init 2 1) (Implicant_init 2 3)) \<le> 1"
    by (simp add: diff_slots_def Implicant_init_def numeral_2_eq_2 upt_rec)
  from try_merge_at_most_one_difference[OF len] d len show ?thesis
    by blast
qed

subsection \<open>The store: what a merge changes\<close>

lemma get_copy_h_facts:
  assumes "get_copy_h h self = (cpy, h')"
  shows "take (length (vec_lists h)) (vec_lists h') = vec_lists h"
    and "take (length (int_lists h)) (int_lists h') = int_lists h"
    and "take (length (impl_objs h)) (impl_objs h') = impl_objs h"
    and "cpy = length (impl_objs h)" and "length (impl_objs h') = Suc (length (impl_objs h))"
    and "length (vec_lists h') = length (vec_lists h) + 2"
    and "length (int_lists h') = length (int_lists h) + 2"
    and "vec_ref (impl_objs h' ! cpy) = Suc (length (vec_lists h))"
    and "minterms_ref (impl_objs h' ! cpy) = Suc (length (int_lists h))"
    and "obsolete_flag (impl_objs h' ! cpy) = False"
    and "wf_ref h self \<Longrightarrow> vec_of h' cpy = vec_of h self"
    and "wf_ref h self \<Longrightarrow> minterms_of h' cpy = minterms_of h self"
  using assms
  by (auto simp: get_copy_h_def Implicant_init_h_def new_vec_list_def new_int_list_def
      new_impl_obj_def vec_of_def minterms_of_def wf_ref_def Let_def nth_append)

lemma try_merge_h_unfold:
  assumes gc: "get_copy_h h self = (cpy, h1)"
    and eq: "length (vec_of h self) = length (vec_of h other)"
    and lp: "try_merge_loop (vec_of h self) (vec_of h other) 0 (-1) = Some d"
  shows "try_merge_h h self other =
     (Inr (Some cpy),
      (let mr = minterms_ref (impl_objs h1 ! cpy);
           h2 = h1\<lparr>int_lists := (int_lists h1)[mr := int_lists h1 ! mr @ minterms_of h1 other]\<rparr>;
           vr = vec_ref (impl_objs h2 ! cpy)
       in if d \<noteq> -1
          then h2\<lparr>vec_lists := (vec_lists h2)[vr := (vec_lists h2 ! vr)[nat d := None]]\<rparr>
          else h2))"
  by (simp add: try_merge_h_def gc eq lp Let_def)

lemma nth_take_eq:
  assumes "take n ys = xs" and "i < length xs"
  shows "ys ! i = xs ! i"
proof -
  from assms have "i < n" by auto
  then have "take n ys ! i = ys ! i" by simp
  with assms(1) show ?thesis by simp
qed

lemma get_copy_h_other:
  assumes gc: "get_copy_h h self = (cpy, h1)" and wf: "wf_ref h a"
  shows "vec_of h1 a = vec_of h a" and "minterms_of h1 a = minterms_of h a"
    and "impl_objs h1 ! a = impl_objs h ! a"
proof -
  note f = get_copy_h_facts[OF gc]
  from wf have a: "a < length (impl_objs h)"
    and b: "minterms_ref (impl_objs h ! a) < length (int_lists h)"
    and c: "vec_ref (impl_objs h ! a) < length (vec_lists h)"
    by (auto simp: wf_ref_def)
  show o: "impl_objs h1 ! a = impl_objs h ! a"
    by (rule nth_take_eq[OF f(3) a])
  show "vec_of h1 a = vec_of h a"
    unfolding vec_of_def o by (rule nth_take_eq[OF f(1) c])
  show "minterms_of h1 a = minterms_of h a"
    unfolding minterms_of_def o by (rule nth_take_eq[OF f(2) b])
qed

lemma try_merge_h_some:
  assumes wf: "wf_ref h self" "wf_ref h other"
    and gc: "get_copy_h h self = (cpy, h1)"
    and eq: "length (vec_of h self) = length (vec_of h other)"
    and lp: "try_merge_loop (vec_of h self) (vec_of h other) 0 (-1) = Some d"
    and run: "try_merge_h h self other = (res, h')"
  shows "res = Inr (Some cpy)"
    and "impl_objs h' = impl_objs h1"
    and "int_lists h' = (int_lists h1)[Suc (length (int_lists h)) :=
                            minterms_of h self @ minterms_of h other]"
    and "vec_lists h' = (if d \<noteq> -1
            then (vec_lists h1)[Suc (length (vec_lists h)) := (vec_of h self)[nat d := None]]
            else vec_lists h1)"
proof -
  note f = get_copy_h_facts[OF gc]
  note o = get_copy_h_other[OF gc wf(2)]
  have v: "vec_lists h1 ! Suc (length (vec_lists h)) = vec_of h self"
    using f(11)[OF wf(1)] by (simp add: vec_of_def f(8))
  have m: "int_lists h1 ! Suc (length (int_lists h)) = minterms_of h self"
    using f(12)[OF wf(1)] by (simp add: minterms_of_def f(9))
  have "(res, h') = try_merge_h h self other" by (simp add: run)
  also note try_merge_h_unfold[OF gc eq lp]
  finally have r: "res = Inr (Some cpy)"
    and h: "h' = (let mr = minterms_ref (impl_objs h1 ! cpy);
           h2 = h1\<lparr>int_lists := (int_lists h1)[mr := int_lists h1 ! mr @ minterms_of h1 other]\<rparr>;
           vr = vec_ref (impl_objs h2 ! cpy)
       in if d \<noteq> -1
          then h2\<lparr>vec_lists := (vec_lists h2)[vr := (vec_lists h2 ! vr)[nat d := None]]\<rparr>
          else h2)"
    by simp_all
  show "res = Inr (Some cpy)" by (rule r)
  show "impl_objs h' = impl_objs h1"
    unfolding h by (simp add: Let_def)
  show "int_lists h' = (int_lists h1)[Suc (length (int_lists h)) :=
                            minterms_of h self @ minterms_of h other]"
    unfolding h by (simp add: Let_def f(9) m o(2))
  show "vec_lists h' = (if d \<noteq> -1
            then (vec_lists h1)[Suc (length (vec_lists h)) := (vec_of h self)[nat d := None]]
            else vec_lists h1)"
    unfolding h by (simp add: Let_def f(8) v)
qed

lemma impl_at_frame:
  assumes "wf_ref h a"
    and v: "take (length (vec_lists h)) (vec_lists h') = vec_lists h"
    and m: "take (length (int_lists h)) (int_lists h') = int_lists h"
    and o: "take (length (impl_objs h)) (impl_objs h') = impl_objs h"
  shows "impl_at h' a = impl_at h a"
proof -
  from assms(1) have a: "a < length (impl_objs h)"
    and b: "vec_ref (impl_objs h ! a) < length (vec_lists h)"
    and c: "minterms_ref (impl_objs h ! a) < length (int_lists h)"
    by (auto simp: wf_ref_def)
  have 1: "impl_objs h' ! a = impl_objs h ! a" by (rule nth_take_eq[OF o a])
  have 2: "vec_lists h' ! vec_ref (impl_objs h ! a) = vec_lists h ! vec_ref (impl_objs h ! a)"
    by (rule nth_take_eq[OF v b])
  have 3: "int_lists h' ! minterms_ref (impl_objs h ! a) = int_lists h ! minterms_ref (impl_objs h ! a)"
    by (rule nth_take_eq[OF m c])
  show ?thesis by (simp add: impl_at_def vec_of_def minterms_of_def 1 2 3)
qed

lemma try_merge_h_frame_aux:
  assumes wf: "wf_ref h self" "wf_ref h other"
    and run: "try_merge_h h self other = (res, h')"
  shows "take (length (vec_lists h)) (vec_lists h') = vec_lists h \<and>
     take (length (int_lists h)) (int_lists h') = int_lists h \<and>
     take (length (impl_objs h)) (impl_objs h') = impl_objs h \<and>
     (\<forall>n. res = Inr (Some n) \<longrightarrow>
            length (impl_objs h) \<le> n \<and> n < length (impl_objs h') \<and>
            length (vec_lists h) \<le> vec_ref (impl_objs h' ! n) \<and>
            vec_ref (impl_objs h' ! n) < length (vec_lists h') \<and>
            length (int_lists h) \<le> minterms_ref (impl_objs h' ! n) \<and>
            minterms_ref (impl_objs h' ! n) < length (int_lists h') \<and>
            obsolete_flag (impl_objs h' ! n) = False) \<and>
     (case res of Inl e \<Rightarrow> try_merge (impl_at h self) (impl_at h other) = Inl e
          | Inr None \<Rightarrow> try_merge (impl_at h self) (impl_at h other) = Inr None
          | Inr (Some n) \<Rightarrow> try_merge (impl_at h self) (impl_at h other) = Inr (Some (impl_at h' n)))"
proof -
  obtain cpy h1 where gc: "get_copy_h h self = (cpy, h1)"
    by (cases "get_copy_h h self") auto
  note f = get_copy_h_facts[OF gc]
  consider (len) "length (vec_of h self) \<noteq> length (vec_of h other)"
    | (none) "length (vec_of h self) = length (vec_of h other)"
        "try_merge_loop (vec_of h self) (vec_of h other) 0 (-1) = None"
    | (some) d where "length (vec_of h self) = length (vec_of h other)"
        "try_merge_loop (vec_of h self) (vec_of h other) 0 (-1) = Some d"
    by (cases "try_merge_loop (vec_of h self) (vec_of h other) 0 (-1)") auto
  then show ?thesis
  proof cases
    case len
    have "(res, h') = try_merge_h h self other" by (simp add: run)
    also have "\<dots> = (Inl AssertionError, h)" using len by (simp add: try_merge_h_def)
    finally have "res = Inl AssertionError" "h' = h" by simp_all
    with len show ?thesis
      by (simp add: try_merge_def impl_at_def)
  next
    case none
    have "(res, h') = try_merge_h h self other" by (simp add: run)
    also have "\<dots> = (Inr None, h)" using none by (simp add: try_merge_h_def)
    finally have "res = Inr None" "h' = h" by simp_all
    with none show ?thesis
      by (simp add: try_merge_def impl_at_def)
  next
    case some
    note s = try_merge_h_some[OF wf gc some run]
    have 1: "take (length (vec_lists h)) (vec_lists h') = vec_lists h"
      unfolding s(4) using f(1) by (cases "d \<noteq> -1") simp_all
    have 2: "take (length (int_lists h)) (int_lists h') = int_lists h"
      unfolding s(3) using f(2) by simp
    have 3: "take (length (impl_objs h)) (impl_objs h') = impl_objs h"
      unfolding s(2) by (rule f(3))
    have 4: "length (vec_lists h') = length (vec_lists h) + 2"
      unfolding s(4) using f(6) by simp
    have 5: "length (int_lists h') = length (int_lists h) + 2"
      unfolding s(3) using f(7) by simp
    have 6: "vec_of h' cpy = (if d \<noteq> -1 then (vec_of h self)[nat d := None] else vec_of h self)"
      unfolding vec_of_def s(2) f(8) s(4) using f(6) f(11)[OF wf(1)]
      by (simp add: vec_of_def f(8))
    have 7: "minterms_of h' cpy = minterms_of h self @ minterms_of h other"
      unfolding minterms_of_def s(2) f(9) s(3) using f(7) by simp
    have 8: "try_merge (impl_at h self) (impl_at h other) = Inr (Some (impl_at h' cpy))"
      using some by (simp add: try_merge_def impl_at_def[of h] get_copy_def Implicant_init_def
          Let_def impl_at_def[of h' cpy] 6 7 s(2) f(10))
    have 9: "length (impl_objs h) \<le> cpy \<and> cpy < length (impl_objs h') \<and>
            length (vec_lists h) \<le> vec_ref (impl_objs h' ! cpy) \<and>
            vec_ref (impl_objs h' ! cpy) < length (vec_lists h') \<and>
            length (int_lists h) \<le> minterms_ref (impl_objs h' ! cpy) \<and>
            minterms_ref (impl_objs h' ! cpy) < length (int_lists h') \<and>
            obsolete_flag (impl_objs h' ! cpy) = False"
      unfolding 4 5 s(2) f(5) f(8) f(9) f(10) by (simp add: f(4))
    show ?thesis
      unfolding s(1) using 1 2 3 8 9 by simp
  qed
qed

subsection \<open>Claim C10: the operands of a merge are left as they were\<close>

text \<open>
  Claim C10. \<open>try_merge\<close> on two implicants of the store leaves every object that was in
  the store as it was: the vectors, the minterm lists and the flags of both operands are
  the same before and after the call, whether the call raises, returns \<open>None\<close> or returns
  a merged implicant. A returned implicant is a new object whose vector and minterm list
  are new lists, so it shares no list with the operands; and the call computes what the
  function on values computes.
\<close>

theorem try_merge_h_frame:
  assumes "wf_ref h self" and "wf_ref h other"
    and "try_merge_h h self other = (res, h')"
  shows "take (length (vec_lists h)) (vec_lists h') = vec_lists h \<and>
         take (length (int_lists h)) (int_lists h') = int_lists h \<and>
         take (length (impl_objs h)) (impl_objs h') = impl_objs h \<and>
         impl_at h' self = impl_at h self \<and> impl_at h' other = impl_at h other \<and>
         (\<forall>n. res = Inr (Some n) \<longrightarrow>
            length (impl_objs h) \<le> n \<and> n < length (impl_objs h') \<and>
            length (vec_lists h) \<le> vec_ref (impl_objs h' ! n) \<and>
            vec_ref (impl_objs h' ! n) < length (vec_lists h') \<and>
            length (int_lists h) \<le> minterms_ref (impl_objs h' ! n) \<and>
            minterms_ref (impl_objs h' ! n) < length (int_lists h') \<and>
            obsolete_flag (impl_objs h' ! n) = False) \<and>
         (case res of
            Inl e \<Rightarrow> try_merge (impl_at h self) (impl_at h other) = Inl e
          | Inr None \<Rightarrow> try_merge (impl_at h self) (impl_at h other) = Inr None
          | Inr (Some n) \<Rightarrow>
              try_merge (impl_at h self) (impl_at h other) = Inr (Some (impl_at h' n)))"
proof -
  note a = try_merge_h_frame_aux[OF assms]
  from a have v: "take (length (vec_lists h)) (vec_lists h') = vec_lists h"
    and m: "take (length (int_lists h)) (int_lists h') = int_lists h"
    and o: "take (length (impl_objs h)) (impl_objs h') = impl_objs h"
    by blast+
  have "impl_at h' self = impl_at h self"
    by (rule impl_at_frame[OF assms(1) v m o])
  moreover have "impl_at h' other = impl_at h other"
    by (rule impl_at_frame[OF assms(2) v m o])
  ultimately show ?thesis using a by blast
qed

theorem try_merge_h_frame_witness:
  "wf_ref \<lparr>vec_lists = [[Some 1, Some 0], [Some 1, Some 1]], int_lists = [[1], [3]],
           impl_objs = [\<lparr>vec_ref = 0, minterms_ref = 0, obsolete_flag = False\<rparr>,
                        \<lparr>vec_ref = 1, minterms_ref = 1, obsolete_flag = False\<rparr>]\<rparr> 0 \<and>
   wf_ref \<lparr>vec_lists = [[Some 1, Some 0], [Some 1, Some 1]], int_lists = [[1], [3]],
           impl_objs = [\<lparr>vec_ref = 0, minterms_ref = 0, obsolete_flag = False\<rparr>,
                        \<lparr>vec_ref = 1, minterms_ref = 1, obsolete_flag = False\<rparr>]\<rparr> 1 \<and>
   fst (try_merge_h \<lparr>vec_lists = [[Some 1, Some 0], [Some 1, Some 1]], int_lists = [[1], [3]],
           impl_objs = [\<lparr>vec_ref = 0, minterms_ref = 0, obsolete_flag = False\<rparr>,
                        \<lparr>vec_ref = 1, minterms_ref = 1, obsolete_flag = False\<rparr>]\<rparr> 0 1)
     = Inr (Some 2) \<and>
   take 2 (vec_lists (snd (try_merge_h
          \<lparr>vec_lists = [[Some 1, Some 0], [Some 1, Some 1]], int_lists = [[1], [3]],
           impl_objs = [\<lparr>vec_ref = 0, minterms_ref = 0, obsolete_flag = False\<rparr>,
                        \<lparr>vec_ref = 1, minterms_ref = 1, obsolete_flag = False\<rparr>]\<rparr> 0 1)))
     = [[Some 1, Some 0], [Some 1, Some 1]]"
proof -
  define h where "h = \<lparr>vec_lists = [[Some 1, Some 0], [Some 1, Some (1 :: int)]],
           int_lists = [[1], [3 :: int]],
           impl_objs = [\<lparr>vec_ref = 0, minterms_ref = 0, obsolete_flag = False\<rparr>,
                        \<lparr>vec_ref = 1, minterms_ref = 1, obsolete_flag = False\<rparr>]\<rparr>"
  have w0: "wf_ref h 0" and w1: "wf_ref h 1"
    by (simp_all add: wf_ref_def h_def)
  have r: "fst (try_merge_h h 0 1) = Inr (Some 2)"
    by (simp add: try_merge_h_def h_def vec_of_def minterms_of_def try_merge_loop.simps
        get_copy_h_def Implicant_init_h_def new_vec_list_def new_int_list_def new_impl_obj_def)
  have "try_merge_h h 0 1 = (fst (try_merge_h h 0 1), snd (try_merge_h h 0 1))"
    by simp
  from try_merge_h_frame[OF w0 w1 this]
  have "take (length (vec_lists h)) (vec_lists (snd (try_merge_h h 0 1))) = vec_lists h"
    by blast
  moreover have "length (vec_lists h) = 2" and "vec_lists h = [[Some 1, Some 0], [Some 1, Some 1]]"
    by (simp_all add: h_def)
  ultimately have "take 2 (vec_lists (snd (try_merge_h h 0 1))) =
      [[Some 1, Some 0], [Some 1, Some 1]]"
    by (simp only:)
  with w0 w1 r show ?thesis unfolding h_def by blast
qed

section \<open>The pruning pass\<close>

lemma take_del_at: "i < length ps \<Longrightarrow> take i (del_at i ps) = take i ps"
  by (simp add: del_at_def)

lemma drop_del_at: "i < length ps \<Longrightarrow> drop i (del_at i ps) = drop (Suc i) ps"
  by (simp add: del_at_def)

lemma drop_loop_prune_spec:
  "i \<le> length ps \<Longrightarrow> drop_loop requ i ps = take i ps @ prune_spec requ (drop i ps)"
proof (induction requ i ps rule: drop_loop.induct)
  case (1 requ i ps)
  show ?case
  proof (cases "i < length ps")
    case False
    with 1(3) have "i = length ps" by simp
    then show ?thesis by (simp add: drop_loop.simps[of requ "length ps" ps])
  next
    case True
    then have d: "drop i ps = ps ! i # drop (Suc i) ps"
      by (simp add: Cons_nth_drop_Suc)
    show ?thesis
    proof (cases "set (minterms (ps ! i)) \<inter> requ \<noteq> {}")
      case keep: True
      from True have "Suc i \<le> length ps" by simp
      from 1(1)[OF True refl refl keep this] True keep d show ?thesis
        by (simp add: drop_loop.simps[of requ i ps] take_Suc_conv_app_nth)
    next
      case discard: False
      from True have "i \<le> length (del_at i ps)" by (simp add: del_at_def)
      from 1(2)[OF True refl refl discard this] True discard d show ?thesis
        by (simp add: drop_loop.simps[of requ i ps] take_del_at drop_del_at)
    qed
  qed
qed

lemma subseq_prune_spec: "subseq (prune_spec requ ps) ps"
  by (induction ps arbitrary: requ) auto

lemma required_set: "required tv = int ` {i. i < length tv \<and> tv ! i = 1}"
  by (auto simp: required_def)

subsection \<open>Claim C8: the pruning pass is the greedy scan of the specification\<close>

text \<open>
  Claim C8. The pruning pass starts from the set of all indices at which the truth vector
  is 1 and returns what the scan of the specification returns: the primes are examined
  in order, a prime is kept if and only if its minterms meet the set outstanding at that
  moment, which then loses the minterms of the prime, and is discarded otherwise; the
  result is a subsequence of the primes, so nothing else is removed and nothing is
  reordered.
\<close>

theorem drop_unrequired_implicants_is_prune_spec:
  "drop_unrequired_implicants tv ps = prune_spec (required tv) ps \<and>
   required tv = int ` {i. i < length tv \<and> tv ! i = 1} \<and>
   subseq (drop_unrequired_implicants tv ps) ps"
  using drop_loop_prune_spec[of 0 ps "required tv"] subseq_prune_spec[of "required tv" ps]
  by (simp add: drop_unrequired_implicants_def required_set)

theorem drop_unrequired_implicants_is_prune_spec_witness:
  "drop_unrequired_implicants [0, 1, 1, 1]
     [\<lparr>vec = [Some 1, None], minterms = [1, 3], obsolete = False\<rparr>,
      \<lparr>vec = [Some 1, Some 1], minterms = [3], obsolete = False\<rparr>,
      \<lparr>vec = [None, Some 1], minterms = [2, 3], obsolete = False\<rparr>] =
     [\<lparr>vec = [Some 1, None], minterms = [1, 3], obsolete = False\<rparr>,
      \<lparr>vec = [None, Some 1], minterms = [2, 3], obsolete = False\<rparr>]"
proof -
  have r: "required [0, 1, 1, 1] = {1, 2, 3}"
    by (auto simp: required_def upt_rec nth_Cons')
  show ?thesis
    using drop_unrequired_implicants_is_prune_spec[of "[0, 1, 1, 1]"
        "[\<lparr>vec = [Some 1, None], minterms = [1, 3], obsolete = False\<rparr>,
          \<lparr>vec = [Some 1, Some 1], minterms = [3], obsolete = False\<rparr>,
          \<lparr>vec = [None, Some 1], minterms = [2, 3], obsolete = False\<rparr>]"]
    by (simp add: r)
qed

section \<open>Vectors and the assignments they cover\<close>

lemma covers_Nil [simp]: "covers [] j"
  by (simp add: covers_def)

lemma covers_Cons:
  "covers (s # v) j \<longleftrightarrow> (s = None \<or> s = Some (j mod 2)) \<and> covers v (j div 2)"
proof -
  have d: "\<And>i. j div 2 ^ Suc i = j div 2 div 2 ^ i"
    by (simp add: zdiv_zmult2_eq)
  have "covers (s # v) j \<longleftrightarrow>
        (\<forall>i<Suc (length v). (s # v) ! i = None \<or> (s # v) ! i = Some ((j div 2 ^ i) mod 2))"
    by (simp add: covers_def)
  also have "\<dots> \<longleftrightarrow> (s = None \<or> s = Some (j mod 2)) \<and>
        (\<forall>i<length v. v ! i = None \<or> v ! i = Some ((j div 2 ^ Suc i) mod 2))"
  proof
    assume h: "\<forall>i<Suc (length v). (s # v) ! i = None \<or> (s # v) ! i = Some ((j div 2 ^ i) mod 2)"
    from h[rule_format, of 0] have "s = None \<or> s = Some (j mod 2)" by simp
    moreover have "\<forall>i<length v. v ! i = None \<or> v ! i = Some ((j div 2 ^ Suc i) mod 2)"
    proof (intro allI impI)
      fix i assume "i < length v"
      with h[rule_format, of "Suc i"] show "v ! i = None \<or> v ! i = Some ((j div 2 ^ Suc i) mod 2)"
        by simp
    qed
    ultimately show "(s = None \<or> s = Some (j mod 2)) \<and>
        (\<forall>i<length v. v ! i = None \<or> v ! i = Some ((j div 2 ^ Suc i) mod 2))" by simp
  next
    assume h: "(s = None \<or> s = Some (j mod 2)) \<and>
        (\<forall>i<length v. v ! i = None \<or> v ! i = Some ((j div 2 ^ Suc i) mod 2))"
    show "\<forall>i<Suc (length v). (s # v) ! i = None \<or> (s # v) ! i = Some ((j div 2 ^ i) mod 2)"
    proof (intro allI impI)
      fix i assume "i < Suc (length v)"
      with h show "(s # v) ! i = None \<or> (s # v) ! i = Some ((j div 2 ^ i) mod 2)"
        by (cases i) auto
    qed
  qed
  also have "\<dots> \<longleftrightarrow> (s = None \<or> s = Some (j mod 2)) \<and> covers v (j div 2)"
    unfolding d by (simp add: covers_def)
  finally show ?thesis .
qed

lemma length_init_vec [simp]: "length (init_vec n m) = n"
  by (induction n arbitrary: m) simp_all

lemma ternary_init_vec: "ternary (init_vec n m)"
proof (induction n arbitrary: m)
  case 0
  show ?case by (simp add: ternary_def)
next
  case (Suc n)
  have "m mod 2 = 0 \<or> m mod 2 = 1" by presburger
  with Suc[of "m div 2"] show ?case by (auto simp: ternary_def)
qed

lemma covers_init_vec:
  "0 \<le> m \<Longrightarrow> m < 2 ^ n \<Longrightarrow> 0 \<le> j \<Longrightarrow> j < 2 ^ n \<Longrightarrow> covers (init_vec n m) j \<longleftrightarrow> j = m"
proof (induction n arbitrary: m j)
  case 0
  then show ?case by simp
next
  case (Suc n)
  from Suc.prems have a: "0 \<le> m div 2" "m div 2 < 2 ^ n" "0 \<le> j div 2" "j div 2 < 2 ^ n"
    by simp_all
  have "covers (init_vec (Suc n) m) j \<longleftrightarrow> j mod 2 = m mod 2 \<and> covers (init_vec n (m div 2)) (j div 2)"
    by (auto simp: covers_Cons)
  also have "\<dots> \<longleftrightarrow> j mod 2 = m mod 2 \<and> j div 2 = m div 2"
    by (simp add: Suc.IH[OF a])
  also have "\<dots> \<longleftrightarrow> j = m"
    by (metis div_mult_mod_eq)
  finally show ?case .
qed

lemma cube_init_vec: "0 \<le> m \<Longrightarrow> m < 2 ^ n \<Longrightarrow> cube (init_vec n m) = {m}"
  by (auto simp: cube_def covers_init_vec)

lemma popcount_le: "i < 2 ^ n \<Longrightarrow> popcount i \<le> n"
proof (induction n arbitrary: i)
  case 0
  then have "i = 0" by simp
  then show ?case by (simp add: popcount.simps[of 0])
next
  case (Suc n)
  then have "i div 2 < 2 ^ n" by simp
  from Suc.IH[OF this] have "popcount (i div 2) \<le> n" .
  moreover have "i mod 2 \<le> 1" by simp
  ultimately show ?case
    by (simp add: popcount.simps[of i])
qed

lemma count_init_vec: "i < 2 ^ n \<Longrightarrow> count_list (init_vec n (int i)) (Some 1) = popcount i"
proof (induction n arbitrary: i)
  case 0
  then have "i = 0" by simp
  then show ?case by (simp add: popcount.simps[of 0])
next
  case (Suc n)
  then have "i div 2 < 2 ^ n" by simp
  from Suc.IH[OF this] have ih: "count_list (init_vec n (int (i div 2))) (Some 1) = popcount (i div 2)" .
  have d: "int i div 2 = int (i div 2)" by simp
  have m: "int i mod 2 = 1 \<longleftrightarrow> i mod 2 = 1" by presburger
  show ?case
  proof (cases "i = 0")
    case True
    with ih show ?thesis by (simp add: popcount.simps[of 0])
  next
    case False
    have "i mod 2 = 0 \<or> i mod 2 = 1" by presburger
    with False show ?thesis
      by (auto simp: d ih m popcount.simps[of i])
  qed
qed

lemma count_None_init_vec: "count_list (init_vec n m) None = 0"
  by (induction n arbitrary: m) simp_all

lemma covers_update_None:
  assumes k: "k < length a" and len: "length a = length b"
    and ta: "ternary a" and tb: "ternary b"
    and dk: "a ! k \<noteq> b ! k"
    and same: "\<And>i. i < length a \<Longrightarrow> i \<noteq> k \<Longrightarrow> a ! i = b ! i"
  shows "covers (a[k := None]) j \<longleftrightarrow> covers a j \<or> covers b j"
proof -
  let ?bit = "\<lambda>i. (j div 2 ^ i) mod 2"
  have bit: "?bit k = 0 \<or> ?bit k = 1" by presburger
  from ta k have ak: "a ! k = None \<or> a ! k = Some 0 \<or> a ! k = Some 1"
    by (auto simp: ternary_def)
  from tb k len have bk: "b ! k = None \<or> b ! k = Some 0 \<or> b ! k = Some 1"
    by (auto simp: ternary_def)
  have rest: "covers (a[k := None]) j \<longleftrightarrow> (\<forall>i<length a. i \<noteq> k \<longrightarrow> a ! i = None \<or> a ! i = Some (?bit i))"
    using k by (auto simp: covers_def nth_list_update)
  have ca: "covers a j \<longleftrightarrow> (a ! k = None \<or> a ! k = Some (?bit k)) \<and>
        (\<forall>i<length a. i \<noteq> k \<longrightarrow> a ! i = None \<or> a ! i = Some (?bit i))"
    using k by (auto simp: covers_def)
  have cb: "covers b j \<longleftrightarrow> (b ! k = None \<or> b ! k = Some (?bit k)) \<and>
        (\<forall>i<length a. i \<noteq> k \<longrightarrow> a ! i = None \<or> a ! i = Some (?bit i))"
    using k len same by (auto simp: covers_def)
  from ak bk dk bit show ?thesis
    unfolding rest ca cb by auto
qed

lemma cube_update_None:
  assumes "k < length a" and "length a = length b" and "ternary a" and "ternary b"
    and "a ! k \<noteq> b ! k"
    and "\<And>i. i < length a \<Longrightarrow> i \<noteq> k \<Longrightarrow> a ! i = b ! i"
  shows "cube (a[k := None]) = cube a \<union> cube b"
  using covers_update_None[OF assms] assms(2)
  by (auto simp: cube_def)

lemma ternary_update_None: "ternary a \<Longrightarrow> ternary (a[k := None])"
  by (auto simp: ternary_def dest: set_update_subset_insert[THEN subsetD])

lemma impl_eval_covers:
  assumes "ternary (vec p)"
  shows "impl_eval p j \<longleftrightarrow> covers (vec p) (int j)"
proof -
  have bit: "\<And>i. (int j div 2 ^ i) mod 2 = int ((j div 2 ^ i) mod 2)"
    by (simp add: zdiv_int zmod_int)
  have "\<And>i. i < length (vec p) \<Longrightarrow>
      (case vec p ! i of None \<Rightarrow> True
       | Some b \<Rightarrow> if b = 0 then \<not> var_true j i else var_true j i) \<longleftrightarrow>
      (vec p ! i = None \<or> vec p ! i = Some ((int j div 2 ^ i) mod 2))"
  proof -
    fix i assume "i < length (vec p)"
    with assms have t: "vec p ! i = None \<or> vec p ! i = Some 0 \<or> vec p ! i = Some 1"
      by (auto simp: ternary_def)
    have b: "(j div 2 ^ i) mod 2 = 0 \<or> (j div 2 ^ i) mod 2 = 1" by presburger
    from t b show "(case vec p ! i of None \<Rightarrow> True
       | Some b \<Rightarrow> if b = 0 then \<not> var_true j i else var_true j i) \<longleftrightarrow>
      (vec p ! i = None \<or> vec p ! i = Some ((int j div 2 ^ i) mod 2))"
      unfolding bit by (auto simp: var_true_def)
  qed
  then show ?thesis
    by (auto simp: impl_eval_def covers_def list_all_iff)
qed

section \<open>One round of merging\<close>

lemma get_copy_obsolete: "get_copy (a\<lparr>obsolete := f\<rparr>) = get_copy a"
  by (simp add: get_copy_def Implicant_init_def)

lemma try_merge_obsolete [simp]:
  "try_merge (a\<lparr>obsolete := f\<rparr>) b = try_merge a b"
  "try_merge a (b\<lparr>obsolete := f\<rparr>) = try_merge a b"
  by (simp_all add: try_merge_def get_copy_obsolete split: option.splits)

lemma mergeable_obsolete [simp]:
  "mergeable (a\<lparr>obsolete := f\<rparr>) b = mergeable a b"
  "mergeable a (b\<lparr>obsolete := f\<rparr>) = mergeable a b"
  by (simp_all add: mergeable_def)

lemma elems_append_at:
  "k < length ng \<Longrightarrow> elems (ng[k := ng ! k @ [r]]) = insert (k, r) (elems ng)"
  by (auto simp: elems_def nth_list_update split: if_splits)

lemma mark_Nil [simp]: "mark P [] = []"
  by (simp add: mark_def)

lemma mark_Cons [simp]: "mark P (x # xs) = (if P x then x\<lparr>obsolete := True\<rparr> else x) # mark P xs"
  by (simp add: mark_def)

lemma length_mark [simp]: "length (mark P xs) = length xs"
  by (simp add: mark_def)

lemma try_merge_mark [simp]:
  "(\<exists>b\<in>set (mark P bs). try_merge a b = X) \<longleftrightarrow> (\<exists>b\<in>set bs. try_merge a b = X)"
  by (induction bs) auto

lemma mergeable_mark [simp]:
  "(\<exists>b\<in>set (mark P bs). mergeable a b) \<longleftrightarrow> (\<exists>b\<in>set bs. mergeable a b)"
  by (induction bs) auto

lemma mark_mark: "mark P (mark Q xs) = mark (\<lambda>x. P x \<or> Q x) xs"
  by (induction xs) auto

lemma mark_False: "(\<And>x. x \<in> set xs \<Longrightarrow> \<not> P x) \<Longrightarrow> mark P xs = xs"
  by (induction xs) auto

lemma mark_cong: "(\<And>x. x \<in> set xs \<Longrightarrow> P x = Q x) \<Longrightarrow> mark P xs = mark Q xs"
  by (induction xs) auto

lemma merge_inner_spec:
  "merge_inner a bs (c, ng) = Inr (a', bs', c', ng') \<Longrightarrow>
     length ng' = length ng \<and>
     elems ng' = elems ng \<union> {(count_ones r, r) | r. \<exists>b\<in>set bs. try_merge a b = Inr (Some r)} \<and>
     a' = (if \<exists>b\<in>set bs. mergeable a b then a\<lparr>obsolete := True\<rparr> else a) \<and>
     bs' = mark (mergeable a) bs \<and>
     c' = (c \<or> (\<exists>b\<in>set bs. mergeable a b))"
proof (induction bs arbitrary: a c ng a' bs' c' ng')
  case Nil
  then show ?case by simp
next
  case (Cons b rest)
  show ?case
  proof (cases "try_merge a b")
    case (Inl e)
    with Cons.prems show ?thesis by simp
  next
    case (Inr res)
    show ?thesis
    proof (cases res)
      case None
      with Inr have nm: "\<not> mergeable a b" by (simp add: mergeable_def)
      from Cons.prems Inr None obtain rest' where
        rec: "merge_inner a rest (c, ng) = Inr (a', rest', c', ng')" and bs': "bs' = b # rest'"
        by (auto split: sum.splits)
      from Cons.IH[OF rec] nm Inr None bs' show ?thesis
        by auto
    next
      case (Some r)
      with Inr have m: "mergeable a b" by (simp add: mergeable_def)
      from Cons.prems Inr Some have k: "count_ones r < length ng"
        by (auto simp: Let_def split: if_splits)
      from Cons.prems Inr Some k obtain rest' where
        rec: "merge_inner (a\<lparr>obsolete := True\<rparr>) rest
                (True, ng[count_ones r := ng ! count_ones r @ [r]]) = Inr (a', rest', c', ng')"
        and bs': "bs' = b\<lparr>obsolete := True\<rparr> # rest'"
        by (auto simp: Let_def split: sum.splits)
      note ih = Cons.IH[OF rec]
      from ih have 1: "length ng' = length ng" by simp
      from ih have 2: "elems ng' = insert (count_ones r, r) (elems ng) \<union>
          {(count_ones r, r) | r. \<exists>b\<in>set rest. try_merge a b = Inr (Some r)}"
        by (simp add: elems_append_at[OF k])
      from ih have 3: "a' = a\<lparr>obsolete := True\<rparr>" by simp
      from ih have 4: "rest' = mark (mergeable a) rest"
        by (simp cong: mark_cong)
      from ih have 5: "c'" by simp
      have 6: "elems ng' = elems ng \<union>
          {(count_ones r, r) | r. \<exists>b\<in>set (b # rest). try_merge a b = Inr (Some r)}"
        unfolding 2 using Inr Some by auto
      from 1 3 4 5 6 m bs' show ?thesis by auto
    qed
  qed
qed

lemma merge_pairs_spec:
  "merge_pairs as bs (c, ng) = Inr (as', bs', c', ng') \<Longrightarrow>
     length ng' = length ng \<and>
     elems ng' = elems ng \<union>
       {(count_ones r, r) | r. \<exists>a\<in>set as. \<exists>b\<in>set bs. try_merge a b = Inr (Some r)} \<and>
     as' = mark (\<lambda>a. \<exists>b\<in>set bs. mergeable a b) as \<and>
     bs' = mark (\<lambda>b. \<exists>a\<in>set as. mergeable a b) bs \<and>
     c' = (c \<or> (\<exists>a\<in>set as. \<exists>b\<in>set bs. mergeable a b))"
proof (induction as arbitrary: bs c ng as' bs' c' ng')
  case Nil
  then show ?case by (simp add: mark_False)
next
  case (Cons a rest)
  from Cons.prems obtain a1 bs1 c1 ng1 rest' where
    inner: "merge_inner a bs (c, ng) = Inr (a1, bs1, c1, ng1)"
    and rec: "merge_pairs rest bs1 (c1, ng1) = Inr (rest', bs', c', ng')"
    and as': "as' = a1 # rest'"
    by (auto split: sum.splits)
  note i = merge_inner_spec[OF inner]
  note ih = Cons.IH[OF rec]
  from i have bs1: "bs1 = mark (mergeable a) bs" by simp
  have 1: "length ng' = length ng" using i ih by simp
  have 2: "elems ng' = elems ng \<union>
       {(count_ones r, r) | r. \<exists>a\<in>set (a # rest). \<exists>b\<in>set bs. try_merge a b = Inr (Some r)}"
  proof -
    from ih have "elems ng' = elems ng1 \<union>
       {(count_ones r, r) | r. \<exists>a\<in>set rest. \<exists>b\<in>set bs. try_merge a b = Inr (Some r)}"
      by (simp add: bs1)
    moreover from i have "elems ng1 = elems ng \<union>
       {(count_ones r, r) | r. \<exists>b\<in>set bs. try_merge a b = Inr (Some r)}" by simp
    ultimately show ?thesis by auto
  qed
  have 3: "as' = mark (\<lambda>a. \<exists>b\<in>set bs. mergeable a b) (a # rest)"
    using i ih as' by (simp add: bs1)
  have 4: "bs' = mark (\<lambda>b. \<exists>a\<in>set (a # rest). mergeable a b) bs"
  proof -
    from ih have "bs' = mark (\<lambda>b. \<exists>a\<in>set rest. mergeable a b) (mark (mergeable a) bs)"
      by (simp add: bs1)
    then show ?thesis by (simp add: mark_mark cong: mark_cong) (rule mark_cong, auto)
  qed
  have 5: "c' = (c \<or> (\<exists>a\<in>set (a # rest). \<exists>b\<in>set bs. mergeable a b))"
    using i ih by (auto simp: bs1)
  from 1 2 3 4 5 show ?case by blast
qed

lemma mark_mem:
  "x \<in> set (mark P xs) \<Longrightarrow> \<exists>y\<in>set xs. x = y \<or> (P y \<and> x = y\<lparr>obsolete := True\<rparr>)"
  by (induction xs) (auto split: if_splits)

lemma mark_mem_same: "x \<in> set (mark P xs) \<Longrightarrow> \<exists>y\<in>set xs. vec x = vec y \<and> minterms x = minterms y"
  by (drule mark_mem) auto

lemma mark_mem_unflagged: "x \<in> set (mark P xs) \<Longrightarrow> \<not> obsolete x \<Longrightarrow> x \<in> set xs"
  by (drule mark_mem) auto

lemma mark_mem_flagged:
  "x \<in> set (mark P xs) \<Longrightarrow> obsolete x \<Longrightarrow>
     \<exists>y\<in>set xs. minterms x = minterms y \<and> ((obsolete y \<and> x = y) \<or> P y)"
  by (drule mark_mem) auto

lemma mem_mark:
  "y \<in> set xs \<Longrightarrow> (if P y then y\<lparr>obsolete := True\<rparr> else y) \<in> set (mark P xs)"
  by (induction xs) auto

lemma try_merge_mark_left [simp]:
  "(\<exists>a\<in>set (mark P as). \<exists>b\<in>set bs. try_merge a b = X) \<longleftrightarrow>
   (\<exists>a\<in>set as. \<exists>b\<in>set bs. try_merge a b = X)"
  by (induction as) auto

lemma try_merge_minterms:
  assumes "try_merge a b = Inr (Some r)"
  shows "minterms r = minterms a @ minterms b" and "length (vec r) = length (vec a)"
    and "length (vec a) = length (vec b)"
proof -
  from assms show len: "length (vec a) = length (vec b)"
    by (auto simp: try_merge_def split: if_splits)
  from assms show "minterms r = minterms a @ minterms b"
    by (auto simp: try_merge_result[OF len] split: list.splits)
  from assms show "length (vec r) = length (vec a)"
    by (auto simp: try_merge_result[OF len] split: list.splits)
qed

lemma try_merge_total:
  "length (vec a) = length (vec b) \<Longrightarrow> \<exists>res. try_merge a b = Inr res"
  by (simp add: try_merge_result split: list.splits)

lemma count_ones_le: "count_ones r \<le> length (vec r)"
  by (simp add: count_ones_def count_le_length)

lemma merge_inner_ok:
  "\<forall>b\<in>set bs. length (vec b) = length (vec a) \<Longrightarrow> length (vec a) < length ng \<Longrightarrow>
     \<exists>res. merge_inner a bs (c, ng) = Inr res"
proof (induction bs arbitrary: a c ng)
  case Nil
  show ?case by simp
next
  case (Cons b rest)
  from Cons.prems have len: "length (vec a) = length (vec b)" by simp
  from try_merge_total[OF len] obtain res where tm: "try_merge a b = Inr res" by blast
  show ?case
  proof (cases res)
    case None
    from Cons.IH[of a ng c] Cons.prems obtain x where "merge_inner a rest (c, ng) = Inr x"
      by auto
    with tm None show ?thesis by (cases x) auto
  next
    case (Some r)
    from try_merge_minterms(2)[OF tm[unfolded Some]] count_ones_le[of r] Cons.prems(2)
    have k: "count_ones r < length ng" by simp
    from Cons.IH[of "a\<lparr>obsolete := True\<rparr>" "ng[count_ones r := ng ! count_ones r @ [r]]" True]
      Cons.prems
    obtain x where "merge_inner (a\<lparr>obsolete := True\<rparr>) rest
        (True, ng[count_ones r := ng ! count_ones r @ [r]]) = Inr x"
      by auto
    with tm Some k show ?thesis by (cases x) (auto simp: Let_def)
  qed
qed

lemma merge_pairs_ok:
  "\<forall>a\<in>set as. length (vec a) = v \<Longrightarrow> \<forall>b\<in>set bs. length (vec b) = v \<Longrightarrow> v < length ng \<Longrightarrow>
     \<exists>res. merge_pairs as bs (c, ng) = Inr res"
proof (induction as arbitrary: bs c ng)
  case Nil
  show ?case by simp
next
  case (Cons a rest)
  from Cons.prems have "\<forall>b\<in>set bs. length (vec b) = length (vec a)" "length (vec a) < length ng"
    by simp_all
  from merge_inner_ok[OF this] obtain a1 bs1 c1 ng1 where
    inner: "merge_inner a bs (c, ng) = Inr (a1, bs1, c1, ng1)"
    by (metis prod_cases4)
  note i = merge_inner_spec[OF inner]
  from i Cons.prems(2) have b1: "\<forall>b\<in>set bs1. length (vec b) = v"
    by (auto dest!: mark_mem_same)
  from i Cons.prems(3) have n1: "v < length ng1" by simp
  from Cons.prems(1) have "\<forall>a\<in>set rest. length (vec a) = v" by simp
  from Cons.IH[OF this b1 n1] obtain x where "merge_pairs rest bs1 (c1, ng1) = Inr x"
    by blast
  with inner show ?case by (cases x) auto
qed

lemma merge_groups_done:
  "\<not> i < length gs \<Longrightarrow> merge_groups i gs c ng ps = Inr (c, ng, ps)"
  by (simp add: merge_groups.simps[of i gs c ng ps])

lemma merge_groups_last:
  assumes "i < length gs" and "\<not> Suc i < length gs"
  shows "merge_groups i gs c ng ps = Inr (c, ng, ps @ filter (\<lambda>impl. \<not> obsolete impl) (gs ! i))"
proof -
  from assms have "\<not> int i < int (length gs) - 1" by linarith
  with assms(1) have "merge_groups i gs c ng ps =
      merge_groups (Suc i) gs c ng (ps @ filter (\<lambda>impl. \<not> obsolete impl) (gs ! i))"
    by (simp add: merge_groups.simps[of i gs c ng ps])
  also from assms(2) have "\<dots> = Inr (c, ng, ps @ filter (\<lambda>impl. \<not> obsolete impl) (gs ! i))"
    by (rule merge_groups_done)
  finally show ?thesis .
qed

lemma merge_groups_pair:
  assumes "Suc i < length gs"
    and "merge_pairs (gs ! i) (gs ! Suc i) (c, ng) = Inr (g', n', c', ng')"
  shows "merge_groups i gs c ng ps =
     merge_groups (Suc i) (gs[i := g', Suc i := n']) c' ng'
       (ps @ filter (\<lambda>impl. \<not> obsolete impl) g')"
proof -
  from assms(1) have "i < length gs" "int i < int (length gs) - 1" by linarith+
  with assms(2) show ?thesis
    by (simp add: merge_groups.simps[of i gs c ng ps])
qed

lemma merge_groups_error:
  assumes "Suc i < length gs"
    and "merge_pairs (gs ! i) (gs ! Suc i) (c, ng) = Inl e"
  shows "merge_groups i gs c ng ps = Inl e"
proof -
  from assms(1) have "i < length gs" "int i < int (length gs) - 1" by linarith+
  with assms(2) show ?thesis
    by (simp add: merge_groups.simps[of i gs c ng ps])
qed

lemma adj_merges_end: "\<not> Suc i < length gs \<Longrightarrow> adj_merges i gs = {}"
  by (auto simp: adj_merges_def)

lemma adj_merges_step:
  assumes "Suc i < length gs"
  shows "adj_merges i gs =
     {r. \<exists>a\<in>set (gs ! i). \<exists>b\<in>set (gs ! Suc i). try_merge a b = Inr (Some r)} \<union>
     adj_merges (Suc i) gs"
proof -
  have k: "\<And>k. i \<le> k \<longleftrightarrow> k = i \<or> Suc i \<le> k" by auto
  show ?thesis
    unfolding adj_merges_def k using assms by blast
qed

lemma adj_merges_flags:
  assumes len: "length gs1 = length gs"
    and fl: "\<And>k. k < length gs \<Longrightarrow> \<exists>P. gs1 ! k = mark P (gs ! k)"
  shows "adj_merges i gs1 = adj_merges i gs"
proof -
  have "\<And>k r. Suc k < length gs \<Longrightarrow>
      (\<exists>a\<in>set (gs1 ! k). \<exists>b\<in>set (gs1 ! Suc k). try_merge a b = Inr (Some r)) \<longleftrightarrow>
      (\<exists>a\<in>set (gs ! k). \<exists>b\<in>set (gs ! Suc k). try_merge a b = Inr (Some r))"
  proof -
    fix k r assume s: "Suc k < length gs"
    then have "k < length gs" by simp
    from fl[OF this] fl[OF s] obtain P Q where
      "gs1 ! k = mark P (gs ! k)" "gs1 ! Suc k = mark Q (gs ! Suc k)" by blast
    then show "(\<exists>a\<in>set (gs1 ! k). \<exists>b\<in>set (gs1 ! Suc k). try_merge a b = Inr (Some r)) \<longleftrightarrow>
      (\<exists>a\<in>set (gs ! k). \<exists>b\<in>set (gs ! Suc k). try_merge a b = Inr (Some r))"
      by simp
  qed
  then have "\<And>r. (\<exists>k. i \<le> k \<and> Suc k < length gs1 \<and>
          (\<exists>a\<in>set (gs1 ! k). \<exists>b\<in>set (gs1 ! Suc k). try_merge a b = Inr (Some r))) \<longleftrightarrow>
      (\<exists>k. i \<le> k \<and> Suc k < length gs \<and>
          (\<exists>a\<in>set (gs ! k). \<exists>b\<in>set (gs ! Suc k). try_merge a b = Inr (Some r)))"
    unfolding len by blast
  then show ?thesis
    unfolding adj_merges_def by blast
qed

lemma flags_update:
  assumes "Suc i < length gs" and "k < length gs"
  shows "\<exists>P'. (gs[i := mark P (gs ! i), Suc i := mark Q (gs ! Suc i)]) ! k = mark P' (gs ! k)"
proof -
  have id: "gs ! k = mark (\<lambda>_. False) (gs ! k)" by (simp add: mark_False)
  consider "k = i" | "k = Suc i" | "k \<noteq> i" "k \<noteq> Suc i" by blast
  then show ?thesis
  proof cases
    case 1 with assms show ?thesis by auto
  next
    case 2 with assms show ?thesis by auto
  next
    case 3 with assms id show ?thesis by (auto simp: nth_list_update)
  qed
qed

lemma merge_groups_elems:
  "merge_groups i gs c ng ps = Inr (c', ng', ps') \<Longrightarrow>
     length ng' = length ng \<and>
     elems ng' = elems ng \<union> (\<lambda>r. (count_ones r, r)) ` adj_merges i gs \<and>
     c' = (c \<or> adj_merges i gs \<noteq> {})"
proof (induction n \<equiv> "length gs - i" arbitrary: i gs c ng ps)
  case 0
  then have "\<not> i < length gs" by simp
  with 0 show ?case
    by (simp add: merge_groups_done adj_merges_end)
next
  case (Suc n)
  then have i: "i < length gs" by simp
  show ?case
  proof (cases "Suc i < length gs")
    case False
    with Suc.prems i show ?thesis
      by (simp add: merge_groups_last adj_merges_end)
  next
    case True
    show ?thesis
    proof (cases "merge_pairs (gs ! i) (gs ! Suc i) (c, ng)")
      case (Inl e)
      from merge_groups_error[OF True Inl] Suc.prems show ?thesis by simp
    next
      case (Inr x)
      obtain g' n' c1 ng1 where x: "x = (g', n', c1, ng1)" by (cases x) auto
      note mp = Inr[unfolded x]
      note sp = merge_pairs_spec[OF mp]
      let ?gs1 = "gs[i := g', Suc i := n']"
      from Suc.prems merge_groups_pair[OF True mp]
      have run: "merge_groups (Suc i) ?gs1 c1 ng1 (ps @ filter (\<lambda>impl. \<not> obsolete impl) g') =
                 Inr (c', ng', ps')" by simp
      from Suc.hyps(2) have "n = length ?gs1 - Suc i" by simp
      note ih = Suc.hyps(1)[OF this run]
      have fl: "adj_merges (Suc i) ?gs1 = adj_merges (Suc i) gs"
      proof (rule adj_merges_flags)
        show "length ?gs1 = length gs" by simp
        fix k assume "k < length gs"
        from flags_update[OF True this] sp show "\<exists>P. ?gs1 ! k = mark P (gs ! k)"
          by simp
      qed
      have pairs: "{r. \<exists>a\<in>set (gs ! i). \<exists>b\<in>set (gs ! Suc i). try_merge a b = Inr (Some r)} \<noteq> {}
          \<longleftrightarrow> (\<exists>a\<in>set (gs ! i). \<exists>b\<in>set (gs ! Suc i). mergeable a b)"
        by (auto simp: mergeable_def)
      have e1: "elems ng1 = elems ng \<union> (\<lambda>r. (count_ones r, r)) `
          {r. \<exists>a\<in>set (gs ! i). \<exists>b\<in>set (gs ! Suc i). try_merge a b = Inr (Some r)}"
        using sp by auto
      have c1: "c1 = (c \<or> {r. \<exists>a\<in>set (gs ! i). \<exists>b\<in>set (gs ! Suc i). try_merge a b = Inr (Some r)} \<noteq> {})"
        unfolding pairs using sp by simp
      from ih have "length ng' = length ng1" by simp
      with sp have 1: "length ng' = length ng" by simp
      from ih have "elems ng' = elems ng1 \<union> (\<lambda>r. (count_ones r, r)) ` adj_merges (Suc i) gs"
        unfolding fl by simp
      then have 2: "elems ng' = elems ng \<union> (\<lambda>r. (count_ones r, r)) ` adj_merges i gs"
        unfolding e1 adj_merges_step[OF True] by blast
      from ih have "c' = (c1 \<or> adj_merges (Suc i) gs \<noteq> {})"
        unfolding fl by simp
      then have 3: "c' = (c \<or> adj_merges i gs \<noteq> {})"
        unfolding c1 adj_merges_step[OF True] by blast
      from 1 2 3 show ?thesis by blast
    qed
  qed
qed

lemma merge_pairs_flags:
  assumes "Suc i < length gs"
    and "merge_pairs (gs ! i) (gs ! Suc i) (c, ng) = Inr (g', n', c1, ng1)"
    and "k < length gs"
  shows "\<exists>P'. (gs[i := g', Suc i := n']) ! k = mark P' (gs ! k)"
proof -
  from merge_pairs_spec[OF assms(2)] obtain P Q where
    "g' = mark P (gs ! i)" "n' = mark Q (gs ! Suc i)" by blast
  with flags_update[OF assms(1) assms(3), of P Q] show ?thesis by simp
qed

lemma merge_groups_ok:
  "\<forall>k<length gs. \<forall>x\<in>set (gs ! k). length (vec x) = v \<Longrightarrow> v < length ng \<Longrightarrow>
     \<exists>res. merge_groups i gs c ng ps = Inr res"
proof (induction n \<equiv> "length gs - i" arbitrary: i gs c ng ps)
  case 0
  then have "\<not> i < length gs" by simp
  then show ?case by (simp add: merge_groups_done)
next
  case (Suc n)
  then have i: "i < length gs" by simp
  show ?case
  proof (cases "Suc i < length gs")
    case False
    with i show ?thesis by (simp add: merge_groups_last)
  next
    case True
    from Suc.prems(1) i True have "\<forall>a\<in>set (gs ! i). length (vec a) = v"
      "\<forall>b\<in>set (gs ! Suc i). length (vec b) = v" by blast+
    from merge_pairs_ok[OF this Suc.prems(2)] obtain g' n' c1 ng1 where
      mp: "merge_pairs (gs ! i) (gs ! Suc i) (c, ng) = Inr (g', n', c1, ng1)"
      by (metis prod_cases4)
    note sp = merge_pairs_spec[OF mp]
    let ?gs1 = "gs[i := g', Suc i := n']"
    have n: "n = length ?gs1 - Suc i" using Suc.hyps(2) by simp
    have l: "\<forall>k<length ?gs1. \<forall>x\<in>set (?gs1 ! k). length (vec x) = v"
    proof (intro allI impI ballI)
      fix k x assume k: "k < length ?gs1" and x: "x \<in> set (?gs1 ! k)"
      from k have k': "k < length gs" by simp
      from merge_pairs_flags[OF True mp k'] obtain P' where "?gs1 ! k = mark P' (gs ! k)"
        by blast
      with x mark_mem_same obtain y where "y \<in> set (gs ! k)" "vec x = vec y" by metis
      with Suc.prems(1) k' show "length (vec x) = v" by simp
    qed
    from sp Suc.prems(2) have "v < length ng1" by simp
    from Suc.hyps(1)[OF n l this] show ?thesis
      unfolding merge_groups_pair[OF True mp] .
  qed
qed

lemma merge_groups_primes:
  "merge_groups i gs c ng ps = Inr (c', ng', ps') \<Longrightarrow>
     \<exists>qs. ps' = ps @ qs \<and> (\<forall>q\<in>set qs. \<not> obsolete q \<and> (\<exists>k<length gs. q \<in> set (gs ! k)))"
proof (induction n \<equiv> "length gs - i" arbitrary: i gs c ng ps)
  case 0
  then have "\<not> i < length gs" by simp
  with 0 show ?case by (simp add: merge_groups_done)
next
  case (Suc n)
  then have i: "i < length gs" by simp
  show ?case
  proof (cases "Suc i < length gs")
    case False
    with Suc.prems i have "ps' = ps @ filter (\<lambda>impl. \<not> obsolete impl) (gs ! i)"
      by (simp add: merge_groups_last)
    with i show ?thesis by auto
  next
    case True
    show ?thesis
    proof (cases "merge_pairs (gs ! i) (gs ! Suc i) (c, ng)")
      case (Inl e)
      from merge_groups_error[OF True Inl] Suc.prems show ?thesis by simp
    next
      case (Inr x)
      obtain g' n' c1 ng1 where x: "x = (g', n', c1, ng1)" by (cases x) auto
      note mp = Inr[unfolded x]
      note sp = merge_pairs_spec[OF mp]
      let ?gs1 = "gs[i := g', Suc i := n']"
      from Suc.prems merge_groups_pair[OF True mp]
      have run: "merge_groups (Suc i) ?gs1 c1 ng1 (ps @ filter (\<lambda>impl. \<not> obsolete impl) g') =
                 Inr (c', ng', ps')" by simp
      from Suc.hyps(2) have "n = length ?gs1 - Suc i" by simp
      from Suc.hyps(1)[OF this run] obtain qs where
        ps': "ps' = (ps @ filter (\<lambda>impl. \<not> obsolete impl) g') @ qs"
        and qs: "\<forall>q\<in>set qs. \<not> obsolete q \<and> (\<exists>k<length ?gs1. q \<in> set (?gs1 ! k))"
        by blast
      have a: "\<forall>q\<in>set qs. \<not> obsolete q \<and> (\<exists>k<length gs. q \<in> set (gs ! k))"
      proof
        fix q assume "q \<in> set qs"
        with qs obtain k where q: "\<not> obsolete q" "k < length gs" "q \<in> set (?gs1 ! k)"
          by auto
        from merge_pairs_flags[OF True mp q(2)] obtain P' where "?gs1 ! k = mark P' (gs ! k)"
          by blast
        with q mark_mem_unflagged have "q \<in> set (gs ! k)" by metis
        with q show "\<not> obsolete q \<and> (\<exists>k<length gs. q \<in> set (gs ! k))" by blast
      qed
      have b: "\<forall>q\<in>set (filter (\<lambda>impl. \<not> obsolete impl) g').
                 \<not> obsolete q \<and> (\<exists>k<length gs. q \<in> set (gs ! k))"
      proof
        fix q assume "q \<in> set (filter (\<lambda>impl. \<not> obsolete impl) g')"
        then have "\<not> obsolete q" "q \<in> set g'" by simp_all
        moreover from sp obtain P where "g' = mark P (gs ! i)" by blast
        ultimately have "q \<in> set (gs ! i)" using mark_mem_unflagged by metis
        with \<open>\<not> obsolete q\<close> i show "\<not> obsolete q \<and> (\<exists>k<length gs. q \<in> set (gs ! k))"
          by blast
      qed
      have "ps' = ps @ (filter (\<lambda>impl. \<not> obsolete impl) g' @ qs)" by (simp add: ps')
      moreover from a b have "\<forall>q\<in>set (filter (\<lambda>impl. \<not> obsolete impl) g' @ qs).
          \<not> obsolete q \<and> (\<exists>k<length gs. q \<in> set (gs ! k))"
        by (metis Un_iff set_append)
      ultimately show ?thesis by blast
    qed
  qed
qed

lemma group_minterms_mem: "(k, x) \<in> elems ng \<Longrightarrow> set (minterms x) \<subseteq> group_minterms ng"
  by (auto simp: group_minterms_def)

lemma group_minterms_mono: "elems ng \<subseteq> elems ng' \<Longrightarrow> group_minterms ng \<subseteq> group_minterms ng'"
  by (auto simp: group_minterms_def)

lemma minterms_of_list_mem: "p \<in> set ps \<Longrightarrow> set (minterms p) \<subseteq> minterms_of_list ps"
  by (auto simp: minterms_of_list_def)

lemma minterms_of_list_append [simp]:
  "minterms_of_list (ps @ qs) = minterms_of_list ps \<union> minterms_of_list qs"
  by (auto simp: minterms_of_list_def)

lemma merge_pairs_covered:
  assumes mp: "merge_pairs as bs (c, ng) = Inr (as', bs', c', ng')"
    and pre: "\<forall>y\<in>set as \<union> set bs. obsolete y \<longrightarrow> set (minterms y) \<subseteq> group_minterms ng"
  shows "\<forall>y\<in>set as' \<union> set bs'. obsolete y \<longrightarrow> set (minterms y) \<subseteq> group_minterms ng'"
proof (intro ballI impI)
  note sp = merge_pairs_spec[OF mp]
  from sp have mono: "group_minterms ng \<subseteq> group_minterms ng'"
    by (intro group_minterms_mono) auto
  have new: "\<And>a b. a \<in> set as \<Longrightarrow> b \<in> set bs \<Longrightarrow> mergeable a b \<Longrightarrow>
      set (minterms a) \<union> set (minterms b) \<subseteq> group_minterms ng'"
  proof -
    fix a b assume ab: "a \<in> set as" "b \<in> set bs" "mergeable a b"
    then obtain r where r: "try_merge a b = Inr (Some r)" by (auto simp: mergeable_def)
    with ab sp have "(count_ones r, r) \<in> elems ng'" by auto
    from group_minterms_mem[OF this] try_merge_minterms(1)[OF r]
    show "set (minterms a) \<union> set (minterms b) \<subseteq> group_minterms ng'" by simp
  qed
  fix y assume y: "y \<in> set as' \<union> set bs'" and o: "obsolete y"
  from y show "set (minterms y) \<subseteq> group_minterms ng'"
  proof
    assume "y \<in> set as'"
    with sp have "y \<in> set (mark (\<lambda>a. \<exists>b\<in>set bs. mergeable a b) as)" by simp
    from mark_mem_flagged[OF this o] obtain y0 where
      y0: "y0 \<in> set as" "minterms y = minterms y0"
      "(obsolete y0 \<and> y = y0) \<or> (\<exists>b\<in>set bs. mergeable y0 b)" by blast
    from y0(3) show ?thesis
    proof
      assume "obsolete y0 \<and> y = y0"
      with pre y0(1) mono show ?thesis by auto
    next
      assume "\<exists>b\<in>set bs. mergeable y0 b"
      then obtain b where "b \<in> set bs" "mergeable y0 b" by blast
      from new[OF y0(1) this] y0(2) show ?thesis by simp
    qed
  next
    assume "y \<in> set bs'"
    with sp have "y \<in> set (mark (\<lambda>b. \<exists>a\<in>set as. mergeable a b) bs)" by simp
    from mark_mem_flagged[OF this o] obtain y0 where
      y0: "y0 \<in> set bs" "minterms y = minterms y0"
      "(obsolete y0 \<and> y = y0) \<or> (\<exists>a\<in>set as. mergeable a y0)" by blast
    from y0(3) show ?thesis
    proof
      assume "obsolete y0 \<and> y = y0"
      with pre y0(1) mono show ?thesis by auto
    next
      assume "\<exists>a\<in>set as. mergeable a y0"
      then obtain a where "a \<in> set as" "mergeable a y0" by blast
      from new[OF this(1) y0(1) this(2)] y0(2) show ?thesis by simp
    qed
  qed
qed

lemma merge_groups_covered:
  assumes "merge_groups i gs c ng ps = Inr (c', ng', ps')"
    and "\<forall>k<length gs. \<forall>y\<in>set (gs ! k). obsolete y \<longrightarrow> set (minterms y) \<subseteq> group_minterms ng"
  shows "\<forall>k. i \<le> k \<and> k < length gs \<longrightarrow>
           (\<forall>y\<in>set (gs ! k). set (minterms y) \<subseteq> minterms_of_list ps' \<union> group_minterms ng')"
  using assms
proof (induction n \<equiv> "length gs - i" arbitrary: i gs c ng ps)
  case 0
  then have "\<And>k. \<not> (i \<le> k \<and> k < length gs)" by simp
  then show ?case by blast
next
  case (Suc n)
  then have i: "i < length gs" by simp
  show ?case
  proof (cases "Suc i < length gs")
    case False
    with Suc.prems(1) i have r: "ps' = ps @ filter (\<lambda>impl. \<not> obsolete impl) (gs ! i)" "ng' = ng"
      by (simp_all add: merge_groups_last)
    show ?thesis
    proof (intro allI impI ballI)
      fix k y assume k: "i \<le> k \<and> k < length gs" and y: "y \<in> set (gs ! k)"
      with False have "k = i" by simp
      show "set (minterms y) \<subseteq> minterms_of_list ps' \<union> group_minterms ng'"
      proof (cases "obsolete y")
        case True
        with Suc.prems(2) k y show ?thesis unfolding r by blast
      next
        case False
        with y \<open>k = i\<close> have "y \<in> set ps'" unfolding r by simp
        from minterms_of_list_mem[OF this] show ?thesis by blast
      qed
    qed
  next
    case True
    show ?thesis
    proof (cases "merge_pairs (gs ! i) (gs ! Suc i) (c, ng)")
      case (Inl e)
      from merge_groups_error[OF True Inl] Suc.prems show ?thesis by simp
    next
      case (Inr x)
      obtain g' n' c1 ng1 where x: "x = (g', n', c1, ng1)" by (cases x) auto
      note mp = Inr[unfolded x]
      note sp = merge_pairs_spec[OF mp]
      let ?gs1 = "gs[i := g', Suc i := n']"
      let ?ps1 = "ps @ filter (\<lambda>impl. \<not> obsolete impl) g'"
      from Suc.prems(1) merge_groups_pair[OF True mp]
      have run: "merge_groups (Suc i) ?gs1 c1 ng1 ?ps1 = Inr (c', ng', ps')" by simp
      from Suc.hyps(2) have n: "n = length ?gs1 - Suc i" by simp
      from sp have mono1: "group_minterms ng \<subseteq> group_minterms ng1"
        by (intro group_minterms_mono) auto
      from merge_groups_elems[OF run] have mono2: "group_minterms ng1 \<subseteq> group_minterms ng'"
        by (intro group_minterms_mono) auto
      from merge_groups_primes[OF run] have mono3: "minterms_of_list ?ps1 \<subseteq> minterms_of_list ps'"
        by auto
      from Suc.prems(2) i True
      have "\<forall>y\<in>set (gs ! i) \<union> set (gs ! Suc i). obsolete y \<longrightarrow>
              set (minterms y) \<subseteq> group_minterms ng"
        by blast
      note cov = merge_pairs_covered[OF mp this]
      have pre1: "\<forall>k<length ?gs1. \<forall>y\<in>set (?gs1 ! k). obsolete y \<longrightarrow>
                    set (minterms y) \<subseteq> group_minterms ng1"
      proof (intro allI impI ballI)
        fix k y assume k: "k < length ?gs1" and y: "y \<in> set (?gs1 ! k)" and o: "obsolete y"
        consider "k = i" | "k = Suc i" | "k \<noteq> i" "k \<noteq> Suc i" by blast
        then show "set (minterms y) \<subseteq> group_minterms ng1"
        proof cases
          case 1
          with y i True have "y \<in> set g'" by simp
          with cov o show ?thesis by blast
        next
          case 2
          with y True have "y \<in> set n'" by simp
          with cov o show ?thesis by blast
        next
          case 3
          with y have "y \<in> set (gs ! k)" by simp
          with Suc.prems(2) k o mono1 show ?thesis by auto
        qed
      qed
      note ih = Suc.hyps(1)[OF n run pre1]
      show ?thesis
      proof (intro allI impI ballI)
        fix k y assume k: "i \<le> k \<and> k < length gs" and y: "y \<in> set (gs ! k)"
        show "set (minterms y) \<subseteq> minterms_of_list ps' \<union> group_minterms ng'"
        proof (cases "k = i")
          case ki: True
          let ?P = "\<lambda>a. \<exists>b\<in>set (gs ! Suc i). mergeable a b"
          let ?y1 = "if ?P y then y\<lparr>obsolete := True\<rparr> else y"
          from y ki sp have y1: "?y1 \<in> set g'"
            using mem_mark[of y "gs ! i" ?P] by simp
          have my: "minterms ?y1 = minterms y" by simp
          show ?thesis
          proof (cases "obsolete ?y1")
            case True
            with cov y1 have "set (minterms ?y1) \<subseteq> group_minterms ng1" by blast
            with mono2 my show ?thesis by auto
          next
            case False
            with y1 have "?y1 \<in> set ?ps1" by simp
            from minterms_of_list_mem[OF this] mono3 my show ?thesis by auto
          qed
        next
          case False
          with k have k1: "Suc i \<le> k \<and> k < length ?gs1" by simp
          from k merge_pairs_flags[OF True mp] obtain P' where
            P': "?gs1 ! k = mark P' (gs ! k)" by blast
          let ?y1 = "if P' y then y\<lparr>obsolete := True\<rparr> else y"
          from mem_mark[OF y, of P'] P' have "?y1 \<in> set (?gs1 ! k)" by simp
          with ih k1 have "set (minterms ?y1) \<subseteq> minterms_of_list ps' \<union> group_minterms ng'"
            by blast
          moreover have "minterms ?y1 = minterms y" by simp
          ultimately show ?thesis by (simp only:)
        qed
      qed
    qed
  qed
qed

section \<open>The invariant of the rounds\<close>

lemma count_list_update:
  "d < length xs \<Longrightarrow>
     count_list (xs[d := y]) z + (if xs ! d = z then 1 else 0) =
     count_list xs z + (if y = z then 1 else 0)"
proof (induction xs arbitrary: d)
  case Nil
  then show ?case by simp
next
  case (Cons x xs)
  show ?case
  proof (cases d)
    case 0
    then show ?thesis by simp
  next
    case (Suc d')
    with Cons.prems have "d' < length xs" by simp
    from Cons.IH[OF this] Suc show ?thesis by (auto split: if_splits)
  qed
qed

lemma diff_slots_empty_eq:
  assumes "diff_slots a b = []" and "length (vec a) = length (vec b)"
  shows "vec a = vec b"
  using assms diff_slots_empty[OF assms(1)] by (intro nth_equalityI) auto

lemma diff_slots_single_eq:
  assumes "diff_slots a b = [k]" and "length (vec a) = length (vec b)"
  shows "vec b = (vec a)[k := vec b ! k]"
  using assms(2) diff_slots_single[OF assms(1)]
  by (intro nth_equalityI) (auto simp: nth_list_update)

lemma try_merge_sound:
  assumes a: "sound_impl v on a" and b: "sound_impl v on b"
    and m: "try_merge a b = Inr (Some r)"
  shows "sound_impl v on r" and "\<not> obsolete r"
proof -
  from a b have len: "length (vec a) = length (vec b)" by (simp add: sound_impl_def)
  note res = try_merge_result[OF len]
  have "sound_impl v on r \<and> \<not> obsolete r"
  proof (cases "diff_slots a b")
    case Nil
    with m res have r: "vec r = vec a" "minterms r = minterms a @ minterms b" "\<not> obsolete r"
      by auto
    from diff_slots_empty_eq[OF Nil len] have "vec a = vec b" .
    with a b r show ?thesis by (auto simp: sound_impl_def)
  next
    case (Cons k ks)
    show ?thesis
    proof (cases ks)
      case Nil
      with Cons have one: "diff_slots a b = [k]" by simp
      with m res have r: "vec r = (vec a)[k := None]" "minterms r = minterms a @ minterms b"
        "\<not> obsolete r" by auto
      note s = diff_slots_single[OF one]
      from a b have t: "ternary (vec a)" "ternary (vec b)" by (simp_all add: sound_impl_def)
      from cube_update_None[OF s(1) len t s(2) s(3)]
      have c: "cube (vec r) = cube (vec a) \<union> cube (vec b)" by (simp add: r)
      from a b r c ternary_update_None[OF t(1), of k] show ?thesis
        by (auto simp: sound_impl_def)
    next
      case (Cons k' ks')
      with \<open>diff_slots a b = k # ks\<close> m res show ?thesis by simp
    qed
  qed
  then show "sound_impl v on r" and "\<not> obsolete r" by simp_all
qed

lemma try_merge_adjacent:
  assumes len: "length (vec a) = length (vec b)"
    and ones: "count_ones b = Suc (count_ones a)"
    and nones: "count_list (vec a) None = n" "count_list (vec b) None = n"
    and m: "try_merge a b = Inr (Some r)"
  shows "count_list (vec r) None = Suc n"
    and "\<exists>k. diff_slots a b = [k] \<and> vec a ! k \<noteq> None \<and> vec b ! k \<noteq> None"
proof -
  note res = try_merge_result[OF len]
  have "count_list (vec r) None = Suc n \<and>
        (\<exists>k. diff_slots a b = [k] \<and> vec a ! k \<noteq> None \<and> vec b ! k \<noteq> None)"
  proof (cases "diff_slots a b")
    case Nil
    from diff_slots_empty_eq[OF Nil len] ones show ?thesis
      by (simp add: count_ones_def)
  next
    case (Cons k ks)
    show ?thesis
    proof (cases ks)
      case Nil
      with Cons have one: "diff_slots a b = [k]" by simp
      with m res have r: "vec r = (vec a)[k := None]" by auto
      note s = diff_slots_single[OF one]
      note vb = diff_slots_single_eq[OF one len]
      from count_list_update[OF s(1), of "vec b ! k" None] vb nones
      have e: "n + (if vec a ! k = None then 1 else 0) =
               n + (if vec b ! k = None then 1 else 0)"
        by simp
      from count_list_update[OF s(1), of "vec b ! k" "Some 1"] vb ones
      have o: "Suc (count_list (vec a) (Some 1)) + (if vec a ! k = Some 1 then 1 else 0) =
               count_list (vec a) (Some 1) + (if vec b ! k = Some 1 then 1 else 0)"
        by (simp add: count_ones_def)
      from e s(2) have ak: "vec a ! k \<noteq> None" and bk: "vec b ! k \<noteq> None"
        by (auto split: if_splits)
      from count_list_update[OF s(1), of None None] ak nones
      have "count_list (vec r) None = Suc n" by (simp add: r)
      with one ak bk show ?thesis by simp
    next
      case (Cons k' ks')
      with \<open>diff_slots a b = k # ks\<close> m res show ?thesis by simp
    qed
  qed
  then show "count_list (vec r) None = Suc n"
    and "\<exists>k. diff_slots a b = [k] \<and> vec a ! k \<noteq> None \<and> vec b ! k \<noteq> None"
    by simp_all
qed

lemma elems_replicate [simp]: "elems (replicate n []) = {}"
  by (auto simp: elems_def)

lemma group_minterms_empty: "elems gs = {} \<Longrightarrow> group_minterms gs = {}"
  by (simp add: group_minterms_def)

lemma group_minterms_iff:
  "m \<in> group_minterms gs \<longleftrightarrow> (\<exists>k<length gs. \<exists>x\<in>set (gs ! k). m \<in> set (minterms x))"
  by (auto simp: group_minterms_def elems_def)

lemma merge_step_inv:
  assumes inv: "round_inv v on r d"
  shows "\<exists>c d'. merge_step d = Inr (c, d') \<and> round_inv v on (Suc r) d' \<and>
           (c \<longrightarrow> r < v) \<and> (\<not> c \<longrightarrow> on \<subseteq> minterms_of_list (primes d'))"
proof -
  let ?G = "groups d"
  let ?ng0 = "replicate (length ?G) ([] :: Implicant list)"
  from inv have lenG: "length ?G = v + 1"
    and G: "\<And>k x. k < length ?G \<Longrightarrow> x \<in> set (?G ! k) \<Longrightarrow>
          sound_impl v on x \<and> count_ones x = k \<and> count_list (vec x) None = r \<and> \<not> obsolete x"
    and P: "\<And>p. p \<in> set (primes d) \<Longrightarrow> sound_impl v on p"
    and cov: "on \<subseteq> minterms_of_list (primes d) \<union> group_minterms ?G"
    by (auto simp: round_inv_def)
  have lens: "\<forall>k<length ?G. \<forall>x\<in>set (?G ! k). length (vec x) = v"
    using G by (auto simp: sound_impl_def)
  from lenG have "v < length ?ng0" by simp
  from merge_groups_ok[OF lens this, of 0 False "primes d"] obtain c ng ps where
    run: "merge_groups 0 ?G False ?ng0 (primes d) = Inr (c, ng, ps)"
    by (metis prod_cases3)
  let ?d' = "\<lparr>groups = ng, primes = ps\<rparr>"
  from run have step: "merge_step d = Inr (c, ?d')"
    by (simp add: merge_step_def)
  note el = merge_groups_elems[OF run]
  from el have lng: "length ng = v + 1" by (simp add: lenG)
  from el have eng: "elems ng = (\<lambda>r. (count_ones r, r)) ` adj_merges 0 ?G" by simp
  from el have c: "c = (adj_merges 0 ?G \<noteq> {})" by simp
  have new: "\<And>x. x \<in> adj_merges 0 ?G \<Longrightarrow>
      sound_impl v on x \<and> count_list (vec x) None = Suc r \<and> \<not> obsolete x"
  proof -
    fix x assume "x \<in> adj_merges 0 ?G"
    then obtain k a b where k: "Suc k < length ?G" and a: "a \<in> set (?G ! k)"
      and b: "b \<in> set (?G ! Suc k)" and m: "try_merge a b = Inr (Some x)"
      by (auto simp: adj_merges_def)
    from k have k': "k < length ?G" by simp
    note ga = G[OF k' a] and gb = G[OF k b]
    from ga gb have len: "length (vec a) = length (vec b)" by (simp add: sound_impl_def)
    from ga gb have ones: "count_ones b = Suc (count_ones a)" by simp
    from try_merge_sound[OF _ _ m, of v on] ga gb
    have "sound_impl v on x" "\<not> obsolete x" by simp_all
    moreover from try_merge_adjacent(1)[OF len ones _ _ m, of r] ga gb
    have "count_list (vec x) None = Suc r" by simp
    ultimately show "sound_impl v on x \<and> count_list (vec x) None = Suc r \<and> \<not> obsolete x"
      by simp
  qed
  have groups': "\<forall>k<length ng. \<forall>x\<in>set (ng ! k).
      sound_impl v on x \<and> count_ones x = k \<and> count_list (vec x) None = Suc r \<and> \<not> obsolete x"
  proof (intro allI impI ballI)
    fix k x assume "k < length ng" "x \<in> set (ng ! k)"
    then have "(k, x) \<in> elems ng" by (simp add: elems_def)
    with eng obtain x0 where "x0 \<in> adj_merges 0 ?G" "(k, x) = (count_ones x0, x0)" by auto
    with new[of x] show "sound_impl v on x \<and> count_ones x = k \<and>
        count_list (vec x) None = Suc r \<and> \<not> obsolete x" by simp
  qed
  from merge_groups_primes[OF run] obtain qs where
    ps: "ps = primes d @ qs" and qs: "\<forall>q\<in>set qs. \<exists>k<length ?G. q \<in> set (?G ! k)"
    by blast
  have primes': "\<forall>p\<in>set ps. sound_impl v on p"
    unfolding ps using P G qs by auto
  have nofl: "\<forall>k<length ?G. \<forall>y\<in>set (?G ! k). obsolete y \<longrightarrow>
      set (minterms y) \<subseteq> group_minterms ?ng0"
    using G by blast
  note gc = merge_groups_covered[OF run nofl]
  have cov': "on \<subseteq> minterms_of_list ps \<union> group_minterms ng"
  proof
    fix m assume "m \<in> on"
    with cov have "m \<in> minterms_of_list (primes d) \<or> m \<in> group_minterms ?G" by blast
    then show "m \<in> minterms_of_list ps \<union> group_minterms ng"
    proof
      assume "m \<in> minterms_of_list (primes d)"
      then show ?thesis by (simp add: ps)
    next
      assume "m \<in> group_minterms ?G"
      then obtain k x where "k < length ?G" "x \<in> set (?G ! k)" "m \<in> set (minterms x)"
        by (auto simp: group_minterms_iff)
      with gc show ?thesis by blast
    qed
  qed
  have inv': "round_inv v on (Suc r) ?d'"
    using lng groups' primes' cov' by (simp add: round_inv_def)
  have cr: "c \<longrightarrow> r < v"
  proof
    assume c
    with c obtain x where "x \<in> adj_merges 0 ?G" by blast
    from new[OF this] have "length (vec x) = v" "count_list (vec x) None = Suc r"
      by (simp_all add: sound_impl_def)
    with count_le_length[of "vec x" None] show "r < v" by simp
  qed
  have nc: "\<not> c \<longrightarrow> on \<subseteq> minterms_of_list (primes ?d')"
  proof
    assume "\<not> c"
    with c eng have "elems ng = {}" by simp
    from group_minterms_empty[OF this] cov' show "on \<subseteq> minterms_of_list (primes ?d')"
      by simp
  qed
  from step inv' cr nc show ?thesis by blast
qed

lemma merge_rounds_terminates:
  "round_inv v on r d \<Longrightarrow> r \<le> v \<Longrightarrow>
     \<exists>d'. merge_rounds (Suc (v - r)) d = Some (Inr d') \<and>
          (\<forall>p\<in>set (primes d'). sound_impl v on p) \<and> on \<subseteq> minterms_of_list (primes d')"
proof (induction n \<equiv> "v - r" arbitrary: r d)
  case 0
  from merge_step_inv[OF 0(2)] obtain c d' where
    s: "merge_step d = Inr (c, d')" "round_inv v on (Suc r) d'" "c \<longrightarrow> r < v"
    "\<not> c \<longrightarrow> on \<subseteq> minterms_of_list (primes d')" by blast
  from 0(1,3) s(3) have "\<not> c" by auto
  with s 0(1) show ?case by (auto simp: round_inv_def)
next
  case (Suc n)
  from merge_step_inv[OF Suc.prems(1)] obtain c d' where
    s: "merge_step d = Inr (c, d')" "round_inv v on (Suc r) d'" "c \<longrightarrow> r < v"
    "\<not> c \<longrightarrow> on \<subseteq> minterms_of_list (primes d')" by blast
  show ?case
  proof (cases c)
    case False
    with s Suc.hyps(2)[symmetric] show ?thesis by (auto simp: round_inv_def)
  next
    case True
    from Suc.hyps(2) have n: "n = v - Suc r" and le: "Suc r \<le> v" by simp_all
    from Suc.hyps(1)[OF n s(2) le] obtain d'' where
      "merge_rounds (Suc (v - Suc r)) d' = Some (Inr d'')"
      "\<forall>p\<in>set (primes d''). sound_impl v on p" "on \<subseteq> minterms_of_list (primes d'')"
      by blast
    moreover from le have "v - r = Suc (v - Suc r)" by simp
    ultimately show ?thesis using s(1) True by auto
  qed
qed

lemma merge_rounds_merge: "merge_rounds n d = Some x \<Longrightarrow> merge d = Some x"
proof (induction n arbitrary: d)
  case 0
  then show ?case by simp
next
  case (Suc n)
  show ?case
  proof (cases "merge_step d")
    case (Inl e)
    with Suc.prems show ?thesis by (subst merge.simps) simp
  next
    case (Inr cd)
    obtain c d' where cd: "cd = (c, d')" by (cases cd) auto
    show ?thesis
    proof (cases c)
      case True
      with Suc.prems Inr cd have "merge_rounds n d' = Some x" by simp
      from Suc.IH[OF this] Inr cd True show ?thesis by (subst merge.simps) simp
    next
      case False
      with Suc.prems Inr cd show ?thesis by (subst merge.simps) simp
    qed
  qed
qed

lemma merge_rounds_mono: "merge_rounds n d = Some x \<Longrightarrow> n \<le> m \<Longrightarrow> merge_rounds m d = Some x"
proof (induction n arbitrary: d m)
  case 0
  then show ?case by simp
next
  case (Suc n)
  from Suc.prems(2) obtain m' where m: "m = Suc m'" "n \<le> m'" by (cases m) auto
  from Suc.prems(1) Suc.IH[OF _ m(2)] show ?case
    unfolding m by (auto split: sum.splits if_splits)
qed

lemma changed_rounds_bound:
  "round_inv v on r d \<Longrightarrow> r \<le> v \<Longrightarrow>
     \<exists>k. changed_rounds (Suc (v - r)) d = Some k \<and> k \<le> v - r"
proof (induction n \<equiv> "v - r" arbitrary: r d)
  case 0
  from merge_step_inv[OF 0(2)] obtain c d' where
    s: "merge_step d = Inr (c, d')" "c \<longrightarrow> r < v" by blast
  from 0(1,3) s(2) have "\<not> c" by auto
  with s 0(1) show ?case by auto
next
  case (Suc n)
  from merge_step_inv[OF Suc.prems(1)] obtain c d' where
    s: "merge_step d = Inr (c, d')" "round_inv v on (Suc r) d'" by blast
  show ?case
  proof (cases c)
    case False
    with s Suc.hyps(2)[symmetric] show ?thesis by auto
  next
    case True
    from Suc.hyps(2) have n: "n = v - Suc r" and le: "Suc r \<le> v" by simp_all
    from Suc.hyps(1)[OF n s(2) le] obtain k where
      "changed_rounds (Suc (v - Suc r)) d' = Some k" "k \<le> v - Suc r" by blast
    moreover from le have "v - r = Suc (v - Suc r)" by simp
    ultimately show ?thesis using s(1) True by auto
  qed
qed

section \<open>The groups of the first round\<close>

lemma init_groups_loop_elems:
  assumes bits: "\<forall>j<length tv. tv ! j = 0 \<or> tv ! j = 1"
    and len: "length tv = 2 ^ v" and lg: "length gs = v + 1"
  shows "\<exists>gs'. init_groups_loop v tv i gs = Inr gs' \<and> length gs' = v + 1 \<and>
     elems gs' = elems gs \<union>
       {(popcount j, Implicant_init v (int j)) | j. i \<le> j \<and> j < length tv \<and> tv ! j = 1}"
  using lg
proof (induction n \<equiv> "length tv - i" arbitrary: i gs)
  case 0
  then have "\<not> i < length tv" by simp
  then have "{(popcount j, Implicant_init v (int j)) | j. i \<le> j \<and> j < length tv \<and> tv ! j = 1} = {}"
    by auto
  then have e: "elems gs = elems gs \<union>
      {(popcount j, Implicant_init v (int j)) | j. i \<le> j \<and> j < length tv \<and> tv ! j = 1}"
    by (simp only: Un_empty_right)
  from \<open>\<not> i < length tv\<close> have r: "init_groups_loop v tv i gs = Inr gs"
    by (simp add: init_groups_loop.simps[of v tv i gs])
  from r e 0(2) show ?case by blast
next
  case (Suc n)
  then have i: "i < length tv" by simp
  from Suc.hyps(2) have n: "n = length tv - Suc i" by simp
  have split: "\<And>j. i \<le> j \<longleftrightarrow> j = i \<or> Suc i \<le> j" by auto
  from bits i have "tv ! i = 0 \<or> tv ! i = 1" by simp
  then show ?case
  proof
    assume z: "tv ! i = 0"
    from Suc.hyps(1)[OF n Suc.prems] obtain gs' where
      r: "init_groups_loop v tv (Suc i) gs = Inr gs'" "length gs' = v + 1"
      "elems gs' = elems gs \<union>
       {(popcount j, Implicant_init v (int j)) | j. Suc i \<le> j \<and> j < length tv \<and> tv ! j = 1}"
      by blast
    have "{(popcount j, Implicant_init v (int j)) | j. i \<le> j \<and> j < length tv \<and> tv ! j = 1} =
          {(popcount j, Implicant_init v (int j)) | j. Suc i \<le> j \<and> j < length tv \<and> tv ! j = 1}"
      unfolding split using z by auto
    with r i z show ?thesis
      by (simp add: init_groups_loop.simps[of v tv i gs])
  next
    assume o: "tv ! i = 1"
    from i len popcount_le[of i v] Suc.prems have p: "popcount i < length gs" by simp
    let ?gs1 = "gs[popcount i := gs ! popcount i @ [Implicant_init v (int i)]]"
    from Suc.prems have "length ?gs1 = v + 1" by simp
    from Suc.hyps(1)[OF n this] obtain gs' where
      r: "init_groups_loop v tv (Suc i) ?gs1 = Inr gs'" "length gs' = v + 1"
      "elems gs' = elems ?gs1 \<union>
       {(popcount j, Implicant_init v (int j)) | j. Suc i \<le> j \<and> j < length tv \<and> tv ! j = 1}"
      by blast
    have "{(popcount j, Implicant_init v (int j)) | j. i \<le> j \<and> j < length tv \<and> tv ! j = 1} =
          insert (popcount i, Implicant_init v (int i))
          {(popcount j, Implicant_init v (int j)) | j. Suc i \<le> j \<and> j < length tv \<and> tv ! j = 1}"
      unfolding split using o i by auto
    with r i o p show ?thesis
      by (simp add: init_groups_loop.simps[of v tv i gs] Let_def elems_append_at)
  qed
qed

lemma required_iff: "m \<in> required tv \<longleftrightarrow> (\<exists>j<length tv. tv ! j = 1 \<and> m = int j)"
  by (auto simp: required_def)

lemma init_groups_inv:
  assumes len: "length tv = 2 ^ v" and bits: "set tv \<subseteq> {0, 1}"
  shows "\<exists>gs. init_groups v tv = Inr gs \<and>
           round_inv v (required tv) 0 \<lparr>groups = gs, primes = []\<rparr>"
proof -
  from bits have b: "\<forall>j<length tv. tv ! j = 0 \<or> tv ! j = 1"
    by (auto simp: subset_iff)
  have l0: "length (replicate (v + 1) ([] :: Implicant list)) = v + 1"
    by (rule length_replicate)
  have e0: "elems (replicate (v + 1) []) = {}" by (rule elems_replicate)
  from init_groups_loop_elems[OF b len l0, of 0] obtain gs where
    gs: "init_groups_loop v tv 0 (replicate (v + 1) []) = Inr gs" "length gs = v + 1"
    and eg: "elems gs = elems (replicate (v + 1) []) \<union>
      {(popcount j, Implicant_init v (int j)) | j. 0 \<le> j \<and> j < length tv \<and> tv ! j = 1}"
    by blast
  from eg have gs3: "elems gs =
      {(popcount j, Implicant_init v (int j)) | j. j < length tv \<and> tv ! j = 1}"
    unfolding e0 by simp
  from gs(1) len have run: "init_groups v tv = Inr gs" by (simp add: init_groups_def)
  have mem: "\<forall>k<length gs. \<forall>x\<in>set (gs ! k).
      sound_impl v (required tv) x \<and> count_ones x = k \<and> count_list (vec x) None = 0 \<and>
      \<not> obsolete x"
  proof (intro allI impI ballI)
    fix k x assume "k < length gs" "x \<in> set (gs ! k)"
    then have "(k, x) \<in> elems gs" by (simp add: elems_def)
    with gs3 obtain j where j: "j < length tv" "tv ! j = 1" "k = popcount j"
      "x = Implicant_init v (int j)" by auto
    from j(1) len have lt: "int j < 2 ^ v"
      by (metis of_nat_less_iff of_nat_numeral of_nat_power)
    have x: "vec x = init_vec v (int j)" "minterms x = [int j]" "\<not> obsolete x"
      by (simp_all add: j(4) Implicant_init_def)
    from cube_init_vec[OF _ lt] have c: "cube (vec x) = {int j}" by (simp add: x)
    from j have "int j \<in> required tv" by (auto simp: required_iff)
    with c x have s: "sound_impl v (required tv) x"
      by (simp add: sound_impl_def ternary_init_vec)
    from j(1) len have "j < 2 ^ v" by simp
    from count_init_vec[OF this] have "count_ones x = k"
      by (simp add: count_ones_def x j(3))
    with s x show "sound_impl v (required tv) x \<and> count_ones x = k \<and>
        count_list (vec x) None = 0 \<and> \<not> obsolete x"
      by (simp add: count_None_init_vec)
  qed
  have cov: "required tv \<subseteq> group_minterms gs"
  proof
    fix m assume "m \<in> required tv"
    then obtain j where j: "j < length tv" "tv ! j = 1" "m = int j"
      by (auto simp: required_iff)
    then have "(popcount j, Implicant_init v (int j)) \<in> elems gs"
      unfolding gs3 by blast
    from group_minterms_mem[OF this] show "m \<in> group_minterms gs"
      by (simp add: j(3) Implicant_init_def)
  qed
  from gs(2) mem cov have "round_inv v (required tv) 0 \<lparr>groups = gs, primes = []\<rparr>"
    by (simp add: round_inv_def minterms_of_list_def)
  with run show ?thesis by blast
qed

lemma prune_spec_covers:
  "requ \<inter> minterms_of_list ps \<subseteq> minterms_of_list (prune_spec requ ps)"
proof (induction ps arbitrary: requ)
  case Nil
  show ?case by (simp add: minterms_of_list_def)
next
  case (Cons p ps)
  have c: "minterms_of_list (p # ps) = set (minterms p) \<union> minterms_of_list ps"
    by (simp add: minterms_of_list_def)
  show ?case
  proof (cases "set (minterms p) \<inter> requ \<noteq> {}")
    case True
    have "minterms_of_list (prune_spec requ (p # ps)) =
        set (minterms p) \<union> minterms_of_list (prune_spec (requ - set (minterms p)) ps)"
      using True by (simp add: minterms_of_list_def)
    with Cons[of "requ - set (minterms p)"] c show ?thesis by blast
  next
    case False
    then have "prune_spec requ (p # ps) = prune_spec requ ps" by simp
    with Cons[of requ] c False show ?thesis by auto
  qed
qed

lemma prune_spec_subset: "set (prune_spec requ ps) \<subseteq> set ps"
  by (induction ps arbitrary: requ) auto

lemma Dnf_init_result:
  assumes len: "length tv = 2 ^ v" and bits: "set tv \<subseteq> {0, 1}"
  shows "\<exists>d. Dnf_init v tv = Some (Inr d) \<and>
           (\<forall>p\<in>set (primes d). sound_impl v (required tv) p) \<and>
           required tv \<subseteq> minterms_of_list (primes d)"
proof -
  from init_groups_inv[OF len bits] obtain gs where
    gs: "init_groups v tv = Inr gs" "round_inv v (required tv) 0 \<lparr>groups = gs, primes = []\<rparr>"
    by blast
  from merge_rounds_terminates[OF gs(2)] obtain d' where
    d': "merge_rounds (Suc (v - 0)) \<lparr>groups = gs, primes = []\<rparr> = Some (Inr d')"
    "\<forall>p\<in>set (primes d'). sound_impl v (required tv) p"
    "required tv \<subseteq> minterms_of_list (primes d')" by blast
  from merge_rounds_merge[OF d'(1)] have m: "merge \<lparr>groups = gs, primes = []\<rparr> = Some (Inr d')" .
  let ?ps = "drop_unrequired_implicants tv (primes d')"
  have ps: "?ps = prune_spec (required tv) (primes d')"
    using drop_loop_prune_spec[of 0 "primes d'" "required tv"]
    by (simp add: drop_unrequired_implicants_def)
  from gs(1) m have "Dnf_init v tv = Some (Inr (d'\<lparr>primes := ?ps\<rparr>))"
    by (simp add: Dnf_init_def)
  moreover from d'(2) prune_spec_subset[of "required tv" "primes d'"]
  have "\<forall>p\<in>set ?ps. sound_impl v (required tv) p" unfolding ps by blast
  moreover from prune_spec_covers[of "required tv" "primes d'"] d'(3)
  have "required tv \<subseteq> minterms_of_list ?ps" unfolding ps by blast
  ultimately show ?thesis by simp
qed

section \<open>The claims about the minimizer\<close>

subsection \<open>Claim C1: the minimized primes are equivalent to the truth vector\<close>

lemma sound_impl_eval:
  assumes s: "sound_impl v on p" and j: "j < 2 ^ v"
  shows "impl_eval p j \<longleftrightarrow> int j \<in> set (minterms p)"
proof -
  from s have l: "length (vec p) = v" and t: "ternary (vec p)"
    and m: "set (minterms p) = cube (vec p)" by (simp_all add: sound_impl_def)
  from j have "int j < 2 ^ v" by (metis of_nat_less_iff of_nat_numeral of_nat_power)
  then have "int j \<in> cube (vec p) \<longleftrightarrow> covers (vec p) (int j)"
    by (simp add: cube_def l)
  with impl_eval_covers[OF t, of j] m show ?thesis by simp
qed

text \<open>
  Claim C1. For every number of variables \<open>v\<close> and every truth vector of length \<open>2 ^ v\<close>
  with entries 0 and 1, the construction of the \<open>Dnf\<close> returns (the merge loop ends and
  nothing is raised), and the disjunction of the conjunctions of the primes it leaves is
  true at exactly the indices where the truth vector is 1.
\<close>

theorem Dnf_init_equivalent:
  assumes "length tv = 2 ^ v" and "set tv \<subseteq> {0, 1}"
  shows "\<exists>d. Dnf_init v tv = Some (Inr d) \<and>
              (\<forall>j<2 ^ v. dnf_eval (primes d) j \<longleftrightarrow> tv ! j = 1)"
proof -
  from Dnf_init_result[OF assms] obtain d where
    d: "Dnf_init v tv = Some (Inr d)"
    and s: "\<forall>p\<in>set (primes d). sound_impl v (required tv) p"
    and c: "required tv \<subseteq> minterms_of_list (primes d)" by blast
  have "\<forall>j<2 ^ v. dnf_eval (primes d) j \<longleftrightarrow> tv ! j = 1"
  proof (intro allI impI)
    fix j :: nat assume j: "j < 2 ^ v"
    have "dnf_eval (primes d) j \<longleftrightarrow> (\<exists>p\<in>set (primes d). impl_eval p j)"
      by (simp add: dnf_eval_def list_ex_iff)
    also have "\<dots> \<longleftrightarrow> (\<exists>p\<in>set (primes d). int j \<in> set (minterms p))"
      using s sound_impl_eval[OF _ j] by blast
    also have "\<dots> \<longleftrightarrow> int j \<in> minterms_of_list (primes d)"
      by (auto simp: minterms_of_list_def)
    also have "\<dots> \<longleftrightarrow> int j \<in> required tv"
    proof
      assume "int j \<in> minterms_of_list (primes d)"
      then obtain p where "p \<in> set (primes d)" "int j \<in> set (minterms p)"
        by (auto simp: minterms_of_list_def)
      with s show "int j \<in> required tv" by (auto simp: sound_impl_def)
    next
      assume "int j \<in> required tv"
      with c show "int j \<in> minterms_of_list (primes d)" by blast
    qed
    also have "\<dots> \<longleftrightarrow> tv ! j = 1"
      using j assms(1) by (auto simp: required_iff)
    finally show "dnf_eval (primes d) j \<longleftrightarrow> tv ! j = 1" .
  qed
  with d show ?thesis by blast
qed

theorem Dnf_init_equivalent_witness:
  "length [0, 1, 1, 1 :: int] = 2 ^ 2 \<and> set [0, 1, 1, 1 :: int] \<subseteq> {0, 1} \<and>
   (\<exists>d. Dnf_init 2 [0, 1, 1, 1] = Some (Inr d) \<and>
        \<not> dnf_eval (primes d) 0 \<and> dnf_eval (primes d) 1 \<and> dnf_eval (primes d) 2 \<and>
        dnf_eval (primes d) 3)"
proof -
  have l: "length [0, 1, 1, 1 :: int] = 2 ^ 2" by simp
  have b: "set [0, 1, 1, 1 :: int] \<subseteq> {0, 1}" by simp
  from Dnf_init_equivalent[OF l b] obtain d where
    d: "Dnf_init 2 [0, 1, 1, 1] = Some (Inr d)"
    and e: "\<forall>j<2 ^ 2. dnf_eval (primes d) j \<longleftrightarrow> [0, 1, 1, 1 :: int] ! j = 1" by blast
  from e[rule_format, of 0] have 0: "\<not> dnf_eval (primes d) 0" by simp
  from e[rule_format, of 1] have 1: "dnf_eval (primes d) 1" by simp
  from e[rule_format, of 2] have 2: "dnf_eval (primes d) 2" by simp
  from e[rule_format, of 3] have 3: "dnf_eval (primes d) 3" by (simp add: numeral_3_eq_3)
  from l b d 0 1 2 3 show ?thesis by blast
qed

subsection \<open>Claim C7: the merge loop ends\<close>

text \<open>
  Claim C7, as amended. For every truth vector of length \<open>2 ^ v\<close> with entries 0 and 1 the
  merge loop ends without an exception: at most \<open>v\<close> rounds produce a merge, and the loop
  runs at most \<open>v + 1\<close> rounds, the last of which produces none. A round that produces no
  merge ends the loop.
\<close>

theorem merge_ends_within_v_plus_one_rounds:
  assumes "length tv = 2 ^ v" and "set tv \<subseteq> {0, 1}"
  shows "(\<exists>gs d' k. init_groups v tv = Inr gs \<and>
            merge \<lparr>groups = gs, primes = []\<rparr> = Some (Inr d') \<and>
            merge_rounds (v + 1) \<lparr>groups = gs, primes = []\<rparr> = Some (Inr d') \<and>
            changed_rounds (v + 1) \<lparr>groups = gs, primes = []\<rparr> = Some k \<and> k \<le> v) \<and>
         (\<forall>d d'. merge_step d = Inr (False, d') \<longrightarrow> merge d = Some (Inr d'))"
proof -
  from init_groups_inv[OF assms] obtain gs where
    gs: "init_groups v tv = Inr gs" "round_inv v (required tv) 0 \<lparr>groups = gs, primes = []\<rparr>"
    by blast
  from merge_rounds_terminates[OF gs(2)] obtain d' where
    d': "merge_rounds (v + 1) \<lparr>groups = gs, primes = []\<rparr> = Some (Inr d')" by auto
  from changed_rounds_bound[OF gs(2)] obtain k where
    k: "changed_rounds (v + 1) \<lparr>groups = gs, primes = []\<rparr> = Some k" "k \<le> v" by auto
  have z: "\<forall>d d'. merge_step d = Inr (False, d') \<longrightarrow> merge d = Some (Inr d')"
    by (intro allI impI, subst merge.simps) simp
  from gs(1) d' merge_rounds_merge[OF d'] k z show ?thesis by blast
qed

text \<open>
  Claim C7 as stated fails on the code: for one variable and the truth vector \<open>[1, 1]\<close>
  one round does not end the loop. The first round merges the two implicants and the
  second, which merges nothing, ends it: two rounds for \<open>v = 1\<close>.
\<close>

theorem merge_rounds_exceed_v_counterexample:
  "init_groups 1 [1, 1] = Inr [[Implicant_init 1 0], [Implicant_init 1 1]] \<and>
   merge_rounds 1 \<lparr>groups = [[Implicant_init 1 0], [Implicant_init 1 1]], primes = []\<rparr> = None \<and>
   merge_rounds 2 \<lparr>groups = [[Implicant_init 1 0], [Implicant_init 1 1]], primes = []\<rparr> =
     Some (Inr \<lparr>groups = [[], []],
                primes = [\<lparr>vec = [None], minterms = [0, 1], obsolete = False\<rparr>]\<rparr>)"
  by code_simp

theorem merge_ends_within_v_plus_one_rounds_witness:
  "length [1, 1 :: int] = 2 ^ 1 \<and> set [1, 1 :: int] \<subseteq> {0, 1} \<and>
   (\<exists>gs d' k. init_groups 1 [1, 1] = Inr gs \<and>
      merge \<lparr>groups = gs, primes = []\<rparr> = Some (Inr d') \<and>
      merge_rounds (1 + 1) \<lparr>groups = gs, primes = []\<rparr> = Some (Inr d') \<and>
      changed_rounds (1 + 1) \<lparr>groups = gs, primes = []\<rparr> = Some k \<and> k \<le> 1)"
proof -
  have l: "length [1, 1 :: int] = 2 ^ 1" by simp
  have b: "set [1, 1 :: int] \<subseteq> {0, 1}" by simp
  from merge_ends_within_v_plus_one_rounds[OF l b] l b show ?thesis by blast
qed

section \<open>The parser always returns\<close>

lemma peek_Cons: "peek self = c # cs \<Longrightarrow> idx self < length (expr self)"
  by (auto simp: peek_def split: if_splits)

lemma skip_spaces_keeps: "expr (skip_spaces self) = expr self \<and> idx self \<le> idx (skip_spaces self)"
proof (induction self rule: skip_spaces.induct)
  case (1 self)
  show ?case
  proof (cases "has_space self")
    case True
    with 1 show ?thesis
      by (subst (1 2) skip_spaces.simps) (simp add: skip_space_def)
  next
    case False
    then show ?thesis by (subst (1 2) skip_spaces.simps) simp
  qed
qed

lemma get_keeps [simp]: "expr (snd (get b self)) = expr self"
  using skip_spaces_keeps[of "self\<lparr>idx := idx self + 1\<rparr>"]
  by (simp add: get_def Let_def)

lemma get_advances: "idx self < idx (snd (get b self))"
  using skip_spaces_keeps[of "self\<lparr>idx := idx self + 1\<rparr>"]
  by (simp add: get_def Let_def)

lemma skip_name_chars_keeps:
  "expr (skip_name_chars self) = expr self \<and> idx self \<le> idx (skip_name_chars self)"
proof (induction self rule: skip_name_chars.induct)
  case (1 self)
  show ?case
  proof (cases "has_decimal_digit self \<or> has_letter self \<or> peek self = ''_''")
    case True
    with 1 get_advances[of self False] show ?thesis
      by (subst (1 2) skip_name_chars.simps) auto
  next
    case False
    then show ?thesis by (subst (1 2) skip_name_chars.simps) simp
  qed
qed

lemma skip_decimal_digits_keeps:
  "expr (skip_decimal_digits self) = expr self \<and> idx self \<le> idx (skip_decimal_digits self)"
proof (induction self rule: skip_decimal_digits.induct)
  case (1 self)
  show ?case
  proof (cases "has_decimal_digit self")
    case True
    with 1 get_advances[of self False] show ?thesis
      by (subst (1 2) skip_decimal_digits.simps) auto
  next
    case False
    then show ?thesis by (subst (1 2) skip_decimal_digits.simps) simp
  qed
qed

lemma skip_binary_digits_keeps:
  "expr (skip_binary_digits self) = expr self \<and> idx self \<le> idx (skip_binary_digits self)"
proof (induction self rule: skip_binary_digits.induct)
  case (1 self)
  show ?case
  proof (cases "peek self \<in> {''0'', ''1''}")
    case True
    with 1 get_advances[of self False] show ?thesis
      by (subst (1 2) skip_binary_digits.simps) auto
  next
    case False
    then show ?thesis by (subst (1 2) skip_binary_digits.simps) simp
  qed
qed

lemma skip_hex_digits_keeps:
  "expr (skip_hex_digits self) = expr self \<and> idx self \<le> idx (skip_hex_digits self)"
proof (induction self rule: skip_hex_digits.induct)
  case (1 self)
  show ?case
  proof (cases "has_hex_digit self")
    case True
    with 1 get_advances[of self False] show ?thesis
      by (subst (1 2) skip_hex_digits.simps) auto
  next
    case False
    then show ?thesis by (subst (1 2) skip_hex_digits.simps) simp
  qed
qed

lemma constant_node_keeps:
  "constant_node self start base = Inr (res, self') \<Longrightarrow> self' = self"
  by (auto simp: constant_node_def split: sum.splits)

lemma parse_variable_keeps:
  assumes "parse_variable self = Inr (res, self')"
  shows "expr self' = expr self \<and> idx self \<le> idx self'"
proof -
  let ?s1 = "snd (get False self)"
  let ?s2 = "skip_name_chars ?s1"
  let ?s3 = "snd (get False ?s2)"
  let ?s4 = "skip_decimal_digits ?s3"
  let ?s5 = "snd (get True ?s4)"
  note a = get_advances[of self False] skip_name_chars_keeps[of ?s1]
    get_advances[of ?s2 False] skip_decimal_digits_keeps[of ?s3] get_advances[of ?s4 True]
    skip_spaces_keeps[of ?s2]
  from assms have "self' = ?s5 \<or> self' = ?s4 \<or> self' = skip_spaces ?s2"
    by (auto simp: parse_variable_def Let_def split: if_splits)
  with a show ?thesis by auto
qed

lemma parse_constant_keeps:
  assumes "parse_constant self = Inr (res, self')"
  shows "expr self' = expr self \<and> idx self \<le> idx self'"
proof -
  let ?s1 = "snd (get False self)"
  let ?s2 = "snd (get False ?s1)"
  note g = get_advances[of self False] get_advances[of ?s1 False]
  note b = skip_binary_digits_keeps[of ?s2] skip_spaces_keeps[of "skip_binary_digits ?s2"]
  note h = skip_hex_digits_keeps[of ?s2] skip_spaces_keeps[of "skip_hex_digits ?s2"]
  note d = skip_decimal_digits_keeps[of self] skip_spaces_keeps[of "skip_decimal_digits self"]
  from assms have "self' = ?s2\<lparr>error := error self'\<rparr> \<or> self' = self\<lparr>error := error self'\<rparr> \<or>
      self' = skip_spaces (skip_binary_digits ?s2) \<or>
      self' = skip_spaces (skip_hex_digits ?s2) \<or>
      self' = skip_spaces (skip_decimal_digits self)"
    by (auto simp: parse_constant_def parse_binary_constant_def parse_hex_constant_def
        parse_decimal_constant_def Let_def dest!: constant_node_keeps split: if_splits)
  then show ?thesis
  proof (elim disjE)
    assume "self' = ?s2\<lparr>error := error self'\<rparr>"
    then have "expr self' = expr ?s2" "idx self' = idx ?s2"
      by (metis parser.select_convs(1) parser.surjective parser.update_convs(5),
          metis parser.select_convs(4) parser.surjective parser.update_convs(5))
    with g show ?thesis by simp
  next
    assume "self' = self\<lparr>error := error self'\<rparr>"
    then have "expr self' = expr self" "idx self' = idx self"
      by (metis parser.select_convs(1) parser.surjective parser.update_convs(5),
          metis parser.select_convs(4) parser.surjective parser.update_convs(5))
    then show ?thesis by simp
  next
    assume "self' = skip_spaces (skip_binary_digits ?s2)"
    with g b show ?thesis by simp
  next
    assume "self' = skip_spaces (skip_hex_digits ?s2)"
    with g h show ?thesis by simp
  next
    assume "self' = skip_spaces (skip_decimal_digits self)"
    with d show ?thesis by simp
  qed
qed

lemma on_nodeE:
  assumes "on_node r f = Some (Inr (res, s'))"
  obtains (none) "r = Some (Inr (None, s'))" "res = None"
  | (some) node s1 where "r = Some (Inr (Some node, s1))" "f node s1 = Some (Inr (res, s'))"
  using assms by (auto simp: on_node_def split: option.splits sum.splits)

lemma get_le: "idx self \<le> idx (snd (get b self))"
  using get_advances[of self b] by simp

lemma get_le_dest: "idx (snd (get b self)) \<le> k \<Longrightarrow> idx self \<le> k"
  using get_le[of self b] by simp

lemma get2_le_dest: "idx (snd (get b (snd (get c self)))) \<le> k \<Longrightarrow> idx self \<le> k"
  by (drule get_le_dest) (rule get_le_dest)

lemma le_get: "k \<le> idx self \<Longrightarrow> k \<le> idx (snd (get b self))"
  using get_le[of self b] by simp

lemma grammar_keeps:
  "grammar n m self = Some (Inr (res, self')) \<Longrightarrow>
     expr self' = expr self \<and> idx self \<le> idx self'"
proof (induction n arbitrary: m self res self')
  case 0
  then show ?case by simp
next
  case (Suc n)
  note ih = Suc.IH
  note g1 = get_keeps get_le
  from Suc.prems show ?case
  proof (cases m)
    case Parse_inclusive_disjunction
    with Suc.prems show ?thesis
      by (auto elim!: on_nodeE simp: return_node_def split: if_splits dest!: ih)
  next
    case (Inclusive_disjunction_loop node)
    with Suc.prems get_le[of self True] show ?thesis
      by (auto elim!: on_nodeE simp: return_node_def split: if_splits dest!: ih)
  next
    case Parse_exclusive_disjunction
    with Suc.prems show ?thesis
      by (auto elim!: on_nodeE simp: return_node_def split: if_splits dest!: ih)
  next
    case (Exclusive_disjunction_loop node)
    with Suc.prems get_le[of self True] show ?thesis
      by (auto elim!: on_nodeE simp: return_node_def split: if_splits dest!: ih)
  next
    case Parse_conjunction
    with Suc.prems show ?thesis
      by (auto elim!: on_nodeE simp: return_node_def split: if_splits dest!: ih)
  next
    case (Conjunction_loop node)
    with Suc.prems get_le[of self True] show ?thesis
      by (auto elim!: on_nodeE simp: return_node_def split: if_splits dest!: ih)
  next
    case Parse_shift
    with Suc.prems show ?thesis
      by (auto elim!: on_nodeE simp: return_node_def fail_with_def Let_def
          split: if_splits dest!: ih get2_le_dest)
  next
    case Parse_sum
    with Suc.prems show ?thesis
      by (auto elim!: on_nodeE simp: return_node_def split: if_splits dest!: ih)
  next
    case (Sum_loop node)
    with Suc.prems get_le[of self True] show ?thesis
      by (auto elim!: on_nodeE simp: return_node_def Let_def split: if_splits sum.splits dest!: ih)
  next
    case Parse_product
    with Suc.prems show ?thesis
      by (auto elim!: on_nodeE simp: return_node_def split: if_splits dest!: ih)
  next
    case (Product_loop node)
    with Suc.prems get_le[of self True] show ?thesis
      by (auto elim!: on_nodeE simp: return_node_def split: if_splits dest!: ih)
  next
    case Parse_factor
    with Suc.prems show ?thesis
      by (auto split: if_splits dest!: ih)
  next
    case Parse_bitwise_negated_expression
    with Suc.prems get_le[of self True] show ?thesis
      by (auto elim!: on_nodeE simp: return_node_def Let_def split: if_splits dest!: ih)
  next
    case Parse_negative_expression
    with Suc.prems get_le[of self True] show ?thesis
      by (auto elim!: on_nodeE simp: return_node_def Let_def split: if_splits sum.splits dest!: ih)
  next
    case Parse_power
    with Suc.prems show ?thesis
      by (auto elim!: on_nodeE simp: return_node_def fail_with_def Let_def
          split: if_splits dest!: ih get2_le_dest)
  next
    case Parse_terminal
    with Suc.prems get_le[of self True] parse_variable_keeps[of self res self']
      parse_constant_keeps[of self res self'] show ?thesis
      by (auto elim!: on_nodeE simp: return_node_def fail_with_def Let_def
          split: if_splits dest!: ih get_le_dest intro: le_get)
  qed
qed

lemma on_node_returns:
  assumes "\<exists>y. r = Some y"
    and "\<And>node s1. r = Some (Inr (Some node, s1)) \<Longrightarrow> \<exists>y. f node s1 = Some y"
  shows "\<exists>y. on_node r f = Some y"
  using assms by (auto simp: on_node_def split: option.splits sum.splits prod.splits)

lemma get_fewer:
  "idx self < length (expr self) \<Longrightarrow>
     length (expr self) - idx (snd (get b self)) < length (expr self) - idx self"
  using get_advances[of self b] by simp

lemma get_fewer_eq:
  "length (expr self) - idx (snd (get b self)) \<le> length (expr self) - idx self"
  using get_advances[of self b] by simp

lemma get2_fewer:
  "idx self < length (expr self) \<Longrightarrow>
     length (expr self) - idx (snd (get b (snd (get c self)))) < length (expr self) - idx self"
  using get_advances[of self c] get_advances[of "snd (get c self)" b] by simp

lemma has_multiplicator_idx: "has_multiplicator self \<Longrightarrow> idx self < length (expr self)"
  by (auto simp: has_multiplicator_def dest: peek_Cons)

lemma has_power_idx: "has_power self \<Longrightarrow> idx self < length (expr self)"
  by (auto simp: has_power_def dest: peek_Cons)

lemma has_lshift_idx: "has_lshift self \<Longrightarrow> idx self < length (expr self)"
  by (auto simp: has_lshift_def dest: peek_Cons)

text \<open>
  The bound is enough: with a bound of the level of the method and 10 for each character
  that is left, the method returns.
\<close>

lemma grammar_returns:
  "method_level m + 10 * (length (expr self) - idx self) \<le> n \<Longrightarrow>
   (m = Parse_bitwise_negated_expression \<or> m = Parse_negative_expression \<longrightarrow>
      idx self < length (expr self)) \<Longrightarrow>
   \<exists>y. grammar n m self = Some y"
proof (induction n arbitrary: m self)
  case 0
  then show ?case by (cases m) simp_all
next
  case (Suc n)
  note ih = Suc.IH
  show ?case
  proof (cases m)
    case Parse_inclusive_disjunction
    with Suc.prems show ?thesis
      apply simp
      apply (rule on_node_returns)
       apply (rule ih; simp)
      apply (drule grammar_keeps)
      apply (auto simp: return_node_def intro!: ih)
      done
  next
    case (Inclusive_disjunction_loop node)
    with Suc.prems show ?thesis
      apply (simp add: return_node_def)
      apply (rule impI)
      apply (frule peek_Cons)
      apply (frule get_fewer[of _ True])
      apply (rule on_node_returns)
       apply (rule ih; simp)
      apply (drule grammar_keeps)
      apply (auto intro!: ih)
      done
  next
    case Parse_exclusive_disjunction
    with Suc.prems show ?thesis
      apply simp
      apply (rule on_node_returns)
       apply (rule ih; simp)
      apply (drule grammar_keeps)
      apply (auto simp: return_node_def intro!: ih)
      done
  next
    case (Exclusive_disjunction_loop node)
    with Suc.prems show ?thesis
      apply (simp add: return_node_def)
      apply (rule impI)
      apply (frule peek_Cons)
      apply (frule get_fewer[of _ True])
      apply (rule on_node_returns)
       apply (rule ih; simp)
      apply (drule grammar_keeps)
      apply (auto intro!: ih)
      done
  next
    case Parse_conjunction
    with Suc.prems show ?thesis
      apply simp
      apply (rule on_node_returns)
       apply (rule ih; simp)
      apply (drule grammar_keeps)
      apply (auto simp: return_node_def intro!: ih)
      done
  next
    case (Conjunction_loop node)
    with Suc.prems show ?thesis
      apply (simp add: return_node_def)
      apply (rule impI)
      apply (frule peek_Cons)
      apply (frule get_fewer[of _ True])
      apply (rule on_node_returns)
       apply (rule ih; simp)
      apply (drule grammar_keeps)
      apply (auto intro!: ih)
      done
  next
    case Parse_shift
    with Suc.prems show ?thesis
      apply simp
      apply (rule on_node_returns)
       apply (rule ih; simp)
      apply (drule grammar_keeps, erule conjE)
      apply (simp add: return_node_def Let_def)
      apply (rule impI)
      apply (frule has_lshift_idx)
      apply (frule get2_fewer[of _ True True])
      apply (rule on_node_returns)
       apply (rule ih; simp)
      apply (simp add: fail_with_def return_node_def)
      done
  next
    case Parse_sum
    with Suc.prems show ?thesis
      apply simp
      apply (rule on_node_returns)
       apply (rule ih; simp)
      apply (drule grammar_keeps)
      apply (auto simp: return_node_def intro!: ih)
      done
  next
    case (Sum_loop node)
    show ?thesis
    proof (cases "peek self = ''+'' \<or> peek self = ''-''")
      case False
      with Sum_loop show ?thesis by (simp add: return_node_def)
    next
      case True
      then have "idx self < length (expr self)" by (auto dest: peek_Cons)
      note f = get_fewer[OF this, of True]
      from True Sum_loop Suc.prems f show ?thesis
        apply (simp add: Let_def)
        apply (rule on_node_returns)
         apply (rule ih; simp)
        apply (drule grammar_keeps)
        apply (auto split: sum.splits intro!: ih)
        done
    qed
  next
    case Parse_product
    with Suc.prems show ?thesis
      apply simp
      apply (rule on_node_returns)
       apply (rule ih; simp)
      apply (drule grammar_keeps)
      apply (auto simp: return_node_def intro!: ih)
      done
  next
    case (Product_loop node)
    with Suc.prems show ?thesis
      apply (simp add: return_node_def)
      apply (rule impI)
      apply (frule has_multiplicator_idx)
      apply (frule get_fewer[of _ True])
      apply (rule on_node_returns)
       apply (rule ih; simp)
      apply (drule grammar_keeps)
      apply (auto intro!: ih)
      done
  next
    case Parse_factor
    with Suc.prems show ?thesis
      by (auto intro!: ih dest: peek_Cons
          simp: has_bitwise_negated_expression_def has_negative_expression_def)
  next
    case Parse_bitwise_negated_expression
    with Suc.prems show ?thesis
      apply (simp add: Let_def)
      apply (frule get_fewer[of _ True])
      apply (rule on_node_returns)
       apply (rule ih; simp)
      apply (simp add: return_node_def)
      done
  next
    case Parse_negative_expression
    with Suc.prems show ?thesis
      apply (simp add: Let_def)
      apply (frule get_fewer[of _ True])
      apply (rule on_node_returns)
       apply (rule ih; simp)
      apply (auto simp: return_node_def split: sum.splits)
      done
  next
    case Parse_power
    with Suc.prems show ?thesis
      apply simp
      apply (rule on_node_returns)
       apply (rule ih; simp)
      apply (drule grammar_keeps, erule conjE)
      apply (simp add: return_node_def Let_def)
      apply (rule impI)
      apply (frule has_power_idx)
      apply (frule get2_fewer[of _ True True])
      apply (rule on_node_returns)
       apply (rule ih; simp)
      apply (simp add: fail_with_def return_node_def)
      done
  next
    case Parse_terminal
    show ?thesis
    proof (cases "peek self = ''(''")
      case False
      with Parse_terminal show ?thesis by simp
    next
      case True
      then have "idx self < length (expr self)" by (auto dest: peek_Cons)
      note f = get_fewer[OF this, of True]
      from True Parse_terminal Suc.prems f show ?thesis
        apply (simp add: Let_def)
        apply (rule on_node_returns)
         apply (rule ih; simp)
        apply (simp add: fail_with_def return_node_def)
        done
    qed
  qed
qed

text \<open>\<^verbatim>\<open>parse_expression\<close> returns on every text: \<open>parse_bound\<close> is enough.\<close>

lemma parse_expression_returns: "\<exists>out. parse_expression self = Some out"
proof -
  define s where "s = (if has_space self then skip_space self else self)"
  have "method_level Parse_inclusive_disjunction + 10 * (length (expr s) - idx s)
          \<le> parse_bound (expr s)"
    by (simp add: parse_bound_def)
  from grammar_returns[OF this]
  obtain y where "parse_inclusive_disjunction (parse_bound (expr s)) s = Some y"
    by auto
  then show ?thesis
    by (auto simp: parse_expression_def Let_def s_def split: sum.splits prod.splits)
qed

lemma parse_returns:
  "\<exists>res. parse refine_method mark_linear_method e bitCount reduceConstants refine marklinear =
     Some res"
  using parse_expression_returns[of "Parser_init e (2 ^ bitCount) reduceConstants"]
  by (auto simp: parse_def Let_def split: sum.splits prod.splits)

text \<open>A larger bound does not change what a method returns.\<close>

lemma on_node_mono:
  assumes "on_node r f = Some y"
    and "\<And>z. r = Some z \<Longrightarrow> r' = Some z"
    and "\<And>node s. r = Some (Inr (Some node, s)) \<Longrightarrow> f node s = Some y \<Longrightarrow> f' node s = Some y"
  shows "on_node r' f' = Some y"
  using assms by (auto simp: on_node_def split: option.splits sum.splits prod.splits)

lemma grammar_Suc:
  "grammar n m self = Some y \<Longrightarrow> grammar (Suc n) m self = Some y"
proof (induction n arbitrary: m self y)
  case 0
  then show ?case by simp
next
  case (Suc n)
  note ih = Suc.IH
  show ?case
  proof (cases m)
    case Parse_inclusive_disjunction
    with Suc.prems show ?thesis
      apply (subst grammar.simps(2))
      apply (subst (asm) grammar.simps(2))
      apply (simp del: grammar.simps add: Let_def)
      apply (erule on_node_mono)
       apply (erule ih)
      apply (auto simp del: grammar.simps intro: ih elim!: on_node_mono split: if_splits sum.splits)
      done
  next
    case (Inclusive_disjunction_loop node)
    with Suc.prems show ?thesis
      apply (subst grammar.simps(2))
      apply (subst (asm) grammar.simps(2))
      apply (auto simp del: grammar.simps simp: Let_def intro: ih elim!: on_node_mono
          split: if_splits sum.splits)
      done
  next
    case Parse_exclusive_disjunction
    with Suc.prems show ?thesis
      apply (subst grammar.simps(2))
      apply (subst (asm) grammar.simps(2))
      apply (simp del: grammar.simps add: Let_def)
      apply (erule on_node_mono)
       apply (erule ih)
      apply (auto simp del: grammar.simps intro: ih elim!: on_node_mono split: if_splits sum.splits)
      done
  next
    case (Exclusive_disjunction_loop node)
    with Suc.prems show ?thesis
      apply (subst grammar.simps(2))
      apply (subst (asm) grammar.simps(2))
      apply (auto simp del: grammar.simps simp: Let_def intro: ih elim!: on_node_mono
          split: if_splits sum.splits)
      done
  next
    case Parse_conjunction
    with Suc.prems show ?thesis
      apply (subst grammar.simps(2))
      apply (subst (asm) grammar.simps(2))
      apply (simp del: grammar.simps add: Let_def)
      apply (erule on_node_mono)
       apply (erule ih)
      apply (auto simp del: grammar.simps intro: ih elim!: on_node_mono split: if_splits sum.splits)
      done
  next
    case (Conjunction_loop node)
    with Suc.prems show ?thesis
      apply (subst grammar.simps(2))
      apply (subst (asm) grammar.simps(2))
      apply (auto simp del: grammar.simps simp: Let_def intro: ih elim!: on_node_mono
          split: if_splits sum.splits)
      done
  next
    case Parse_shift
    with Suc.prems show ?thesis
      apply (subst grammar.simps(2))
      apply (subst (asm) grammar.simps(2))
      apply (simp del: grammar.simps add: Let_def)
      apply (erule on_node_mono)
       apply (erule ih)
      apply (auto simp del: grammar.simps intro: ih elim!: on_node_mono split: if_splits sum.splits)
      done
  next
    case Parse_sum
    with Suc.prems show ?thesis
      apply (subst grammar.simps(2))
      apply (subst (asm) grammar.simps(2))
      apply (simp del: grammar.simps add: Let_def)
      apply (erule on_node_mono)
       apply (erule ih)
      apply (auto simp del: grammar.simps intro: ih elim!: on_node_mono split: if_splits sum.splits)
      done
  next
    case (Sum_loop node)
    with Suc.prems show ?thesis
      apply (subst grammar.simps(2))
      apply (subst (asm) grammar.simps(2))
      apply (auto simp del: grammar.simps simp: Let_def intro: ih elim!: on_node_mono
          split: if_splits sum.splits)
      done
  next
    case Parse_product
    with Suc.prems show ?thesis
      apply (subst grammar.simps(2))
      apply (subst (asm) grammar.simps(2))
      apply (simp del: grammar.simps add: Let_def)
      apply (erule on_node_mono)
       apply (erule ih)
      apply (auto simp del: grammar.simps intro: ih elim!: on_node_mono split: if_splits sum.splits)
      done
  next
    case (Product_loop node)
    with Suc.prems show ?thesis
      apply (subst grammar.simps(2))
      apply (subst (asm) grammar.simps(2))
      apply (auto simp del: grammar.simps simp: Let_def intro: ih elim!: on_node_mono
          split: if_splits sum.splits)
      done
  next
    case Parse_factor
    with Suc.prems show ?thesis
      apply (subst grammar.simps(2))
      apply (subst (asm) grammar.simps(2))
      apply (auto simp del: grammar.simps simp: Let_def intro: ih elim!: on_node_mono
          split: if_splits sum.splits)
      done
  next
    case Parse_bitwise_negated_expression
    with Suc.prems show ?thesis
      apply (subst grammar.simps(2))
      apply (subst (asm) grammar.simps(2))
      apply (simp del: grammar.simps add: Let_def)
      apply (erule on_node_mono)
       apply (erule ih)
      apply (auto simp del: grammar.simps intro: ih elim!: on_node_mono split: if_splits sum.splits)
      done
  next
    case Parse_negative_expression
    with Suc.prems show ?thesis
      apply (subst grammar.simps(2))
      apply (subst (asm) grammar.simps(2))
      apply (simp del: grammar.simps add: Let_def)
      apply (erule on_node_mono)
       apply (erule ih)
      apply (auto simp del: grammar.simps intro: ih elim!: on_node_mono split: if_splits sum.splits)
      done
  next
    case Parse_power
    with Suc.prems show ?thesis
      apply (subst grammar.simps(2))
      apply (subst (asm) grammar.simps(2))
      apply (simp del: grammar.simps add: Let_def)
      apply (erule on_node_mono)
       apply (erule ih)
      apply (auto simp del: grammar.simps intro: ih elim!: on_node_mono split: if_splits sum.splits)
      done
  next
    case Parse_terminal
    with Suc.prems show ?thesis
      apply (subst grammar.simps(2))
      apply (subst (asm) grammar.simps(2))
      apply (auto simp del: grammar.simps simp: Let_def intro: ih elim!: on_node_mono
          split: if_splits sum.splits)
      done
  qed
qed

lemma grammar_mono:
  assumes "n \<le> n'" and "grammar n m self = Some y"
  shows "grammar n' m self = Some y"
  using assms
proof (induction rule: dec_induct)
  case base
  then show ?case .
next
  case (step k)
  from step.IH[OF step.prems] show ?case by (rule grammar_Suc)
qed

text \<open>
  So what a method returns with some bound, it returns with every bound that is enough.
\<close>

lemma grammar_any_bound:
  assumes "grammar n m self = Some y"
    and "method_level m + 10 * (length (expr self) - idx self) \<le> k"
    and "m = Parse_bitwise_negated_expression \<or> m = Parse_negative_expression \<longrightarrow>
           idx self < length (expr self)"
  shows "grammar k m self = Some y"
proof -
  from grammar_returns[OF assms(2,3)] obtain z where z: "grammar k m self = Some z"
    by blast
  show ?thesis
  proof (cases "n \<le> k")
    case True
    from grammar_mono[OF True assms(1)] show ?thesis .
  next
    case False
    then have "k \<le> n" by simp
    from grammar_mono[OF this z] assms(1) z show ?thesis by simp
  qed
qed

text \<open>
  A method whose result is an exception, \<^verbatim>\<open>None\<close>, or a node at the end of the text hands
  this result on to its caller, up to \<^verbatim>\<open>parse_expression\<close>.
\<close>

lemma peek_at_end: "idx self = length (expr self) \<Longrightarrow> peek self = []"
  by (simp add: peek_def)

lemma lift_product:
  assumes "grammar n Parse_factor st = Some y"
    and "\<forall>node s2. y = Inr (Some node, s2) \<longrightarrow> peek s2 = []"
  shows "grammar (Suc n) Parse_product st = Some y"
  using assms
  by (auto simp: on_node_def return_node_def has_multiplicator_def
      split: option.splits sum.splits prod.splits)

lemma lift_sum:
  assumes "grammar n Parse_product st = Some y"
    and "\<forall>node s2. y = Inr (Some node, s2) \<longrightarrow> peek s2 = []"
  shows "grammar (Suc n) Parse_sum st = Some y"
  using assms
  by (auto simp: on_node_def return_node_def split: option.splits sum.splits prod.splits)

lemma lift_shift:
  assumes "grammar n Parse_sum st = Some y"
    and "\<forall>node s2. y = Inr (Some node, s2) \<longrightarrow> peek s2 = []"
  shows "grammar (Suc n) Parse_shift st = Some y"
  using assms
  by (auto simp: on_node_def return_node_def has_lshift_def
      split: option.splits sum.splits prod.splits)

lemma lift_conjunction:
  assumes "grammar n Parse_shift st = Some y"
    and "\<forall>node s2. y = Inr (Some node, s2) \<longrightarrow> peek s2 = []"
  shows "grammar (Suc n) Parse_conjunction st = Some y"
  using assms
  by (auto simp: on_node_def return_node_def split: option.splits sum.splits prod.splits)

lemma lift_exclusive_disjunction:
  assumes "grammar n Parse_conjunction st = Some y"
    and "\<forall>node s2. y = Inr (Some node, s2) \<longrightarrow> peek s2 = []"
  shows "grammar (Suc n) Parse_exclusive_disjunction st = Some y"
  using assms
  by (auto simp: on_node_def return_node_def split: option.splits sum.splits prod.splits)

lemma lift_inclusive_disjunction:
  assumes "grammar n Parse_exclusive_disjunction st = Some y"
    and "\<forall>node s2. y = Inr (Some node, s2) \<longrightarrow> peek s2 = []"
  shows "grammar (Suc n) Parse_inclusive_disjunction st = Some y"
  using assms
  by (auto simp: on_node_def return_node_def split: option.splits sum.splits prod.splits)

lemma lift_all:
  assumes "grammar n m st = Some y"
    and "\<forall>node s2. y = Inr (Some node, s2) \<longrightarrow> peek s2 = []"
    and "m \<in> {Parse_factor, Parse_product, Parse_sum, Parse_shift, Parse_conjunction,
               Parse_exclusive_disjunction, Parse_inclusive_disjunction}"
  shows "\<exists>k. grammar k Parse_inclusive_disjunction st = Some y"
proof -
  note c = assms(2)
  have i: "grammar k Parse_exclusive_disjunction st = Some y \<Longrightarrow> ?thesis" for k
    using lift_inclusive_disjunction[OF _ c] by blast
  have x: "grammar k Parse_conjunction st = Some y \<Longrightarrow> ?thesis" for k
    using lift_exclusive_disjunction[OF _ c] i by blast
  have a: "grammar k Parse_shift st = Some y \<Longrightarrow> ?thesis" for k
    using lift_conjunction[OF _ c] x by blast
  have s: "grammar k Parse_sum st = Some y \<Longrightarrow> ?thesis" for k
    using lift_shift[OF _ c] a by blast
  have p: "grammar k Parse_product st = Some y \<Longrightarrow> ?thesis" for k
    using lift_sum[OF _ c] s by blast
  have f: "grammar k Parse_factor st = Some y \<Longrightarrow> ?thesis" for k
    using lift_product[OF _ c] p by blast
  from assms(1,3) i x a s p f show ?thesis by blast
qed

lemma skip_trailing_spaces_at_end:
  "idx self = length (expr self) \<Longrightarrow> skip_trailing_spaces self = self"
  by (subst skip_trailing_spaces.simps) simp

lemma parse_expression_lift:
  assumes "grammar n m (if has_space self then skip_space self else self) = Some y"
    and "m \<in> {Parse_factor, Parse_product, Parse_sum, Parse_shift, Parse_conjunction,
               Parse_exclusive_disjunction, Parse_inclusive_disjunction}"
  shows "y = Inl e \<Longrightarrow> parse_expression self = Some (Inl e)"
    and "y = Inr (None, s') \<Longrightarrow> \<exists>s''. parse_expression self = Some (Inr (None, s''))"
    and "y = Inr (Some node, s2) \<Longrightarrow> idx s2 = length (expr s2) \<Longrightarrow>
           parse_expression self = Some (Inr (Some node, s2))"
proof -
  define st where "st = (if has_space self then skip_space self else self)"
  note g = assms(1)[folded st_def]
  have b: "method_level Parse_inclusive_disjunction + 10 * (length (expr st) - idx st)
          \<le> parse_bound (expr st)"
    by (simp add: parse_bound_def)
  have top: "parse_inclusive_disjunction (parse_bound (expr st)) st = Some y"
    if "\<forall>node s2. y = Inr (Some node, s2) \<longrightarrow> peek s2 = []"
  proof -
    from lift_all[OF g that assms(2)] obtain k where
      "grammar k Parse_inclusive_disjunction st = Some y" by blast
    from grammar_any_bound[OF this b] show ?thesis by simp
  qed
  show "parse_expression self = Some (Inl e)" if "y = Inl e"
    using top that by (simp add: parse_expression_def Let_def st_def[symmetric])
  show "\<exists>s''. parse_expression self = Some (Inr (None, s''))" if "y = Inr (None, s')"
    using top that by (simp add: parse_expression_def Let_def st_def[symmetric])
  show "parse_expression self = Some (Inr (Some node, s2))"
    if "y = Inr (Some node, s2)" "idx s2 = length (expr s2)"
    using top that peek_at_end[OF that(2)] skip_trailing_spaces_at_end[OF that(2)]
    by (simp add: parse_expression_def Let_def st_def[symmetric])
qed

text \<open>The shift and the power, for every state of the parser and all operands.\<close>

lemma parse_shift_rule:
  assumes "parse_sum n st = Some (Inr (Some base, s1))" and "has_lshift s1"
    and "parse_sum n (snd (get True (snd (get True s1)))) = Some (Inr (Some op, s2))"
  shows "parse_shift (Suc n) st =
     (if has_lshift s2
      then Some (Inr (None, s2\<lparr>error := ''Disallowed nested lshift operator near '' @ peek s2\<rparr>))
      else Some (Inr (Some (Node PRODUCT (modulus s1) (modRed s1)
                        [base, Node POWER (modulus s2) (modRed s2)
                                 [Node CONSTANT (modulus s2) (modRed s2) [] 2 [], op] 0 []] 0 []),
                      s2)))"
  using assms
  by (simp add: on_node_def return_node_def fail_with_def Let_def new_node_def Node_init_def
      append_child_def)

lemma parse_power_rule:
  assumes "parse_terminal n st = Some (Inr (Some base, s1))" and "has_power s1"
    and "parse_terminal n (snd (get True (snd (get True s1)))) = Some (Inr (Some ex, s2))"
  shows "parse_power (Suc n) st =
     (if has_power s2
      then Some (Inr (None, s2\<lparr>error := ''Disallowed nested power operator near '' @ peek s2\<rparr>))
      else Some (Inr (Some (Node POWER (modulus s1) (modRed s1) [base, ex] 0 []), s2)))"
  using assms
  by (simp add: on_node_def return_node_def fail_with_def Let_def new_node_def Node_init_def
      append_child_def)

lemma parse_shift_post:
  "parse_shift n st = Some (Inr (Some node, s')) \<Longrightarrow> \<not> has_lshift s'"
  by (cases n)
     (auto simp: return_node_def fail_with_def Let_def elim!: on_nodeE split: if_splits)

lemma parse_power_post:
  "parse_power n st = Some (Inr (Some node, s')) \<Longrightarrow> \<not> has_power s'"
  by (cases n)
     (auto simp: return_node_def fail_with_def Let_def elim!: on_nodeE split: if_splits)

lemma parse_terminal_start:
  assumes "parse_terminal n st = Some (Inr (Some node, s'))"
  shows "\<not> has_bitwise_negated_expression st \<and> \<not> has_negative_expression st"
proof (cases n)
  case 0
  with assms show ?thesis by simp
next
  case (Suc k)
  show ?thesis
  proof (cases "peek st = ''('' \<or> has_variable st \<or> has_decimal_digit st")
    case True
    then show ?thesis
      by (auto simp: has_bitwise_negated_expression_def has_negative_expression_def
          has_variable_def has_letter_def has_decimal_digit_def split: list.splits)
  next
    case False
    with assms Suc show ?thesis
      by (auto simp: parse_constant_def parse_binary_constant_def parse_hex_constant_def
          parse_decimal_constant_def has_binary_constant_def has_hex_constant_def
          has_decimal_digit_def Let_def split: if_splits)
  qed
qed

lemma parse_factor_power:
  assumes "parse_terminal k st = Some (Inr (Some base, s1))"
  shows "grammar (Suc n) Parse_factor st = parse_power n st"
  using parse_terminal_start[OF assms] by simp

lemma parse_shift_expression:
  assumes "parse_sum n st = Some (Inr (Some base, s1))" and "has_lshift s1"
    and "parse_sum n (snd (get True (snd (get True s1)))) = Some (Inr (Some op, s2))"
    and "st = (if has_space self then skip_space self else self)"
  shows "if has_lshift s2 then \<exists>s3. parse_expression self = Some (Inr (None, s3))
         else idx s2 = length (expr s2) \<longrightarrow> parse_expression self = parse_shift (Suc n) st"
proof (cases "has_lshift s2")
  case True
  with parse_shift_rule[OF assms(1-3)] obtain s' where
    "grammar (Suc n) Parse_shift (if has_space self then skip_space self else self) =
       Some (Inr (None, s'))"
    unfolding assms(4) by simp
  from parse_expression_lift(2)[OF this _ refl] True show ?thesis by simp
next
  case False
  with parse_shift_rule[OF assms(1-3)] obtain node where
    r: "grammar (Suc n) Parse_shift (if has_space self then skip_space self else self) =
       Some (Inr (Some node, s2))"
    unfolding assms(4) by simp
  from parse_expression_lift(3)[OF r _ refl] r False show ?thesis
    unfolding assms(4) by simp
qed

lemma parse_power_expression:
  assumes "parse_terminal n st = Some (Inr (Some base, s1))" and "has_power s1"
    and "parse_terminal n (snd (get True (snd (get True s1)))) = Some (Inr (Some ex, s2))"
    and "st = (if has_space self then skip_space self else self)"
  shows "if has_power s2 then \<exists>s3. parse_expression self = Some (Inr (None, s3))
         else idx s2 = length (expr s2) \<longrightarrow> parse_expression self = parse_power (Suc n) st"
proof -
  note f = parse_factor_power[OF assms(1), of "Suc n"]
  show ?thesis
  proof (cases "has_power s2")
    case True
    with parse_power_rule[OF assms(1-3)] f obtain s' where
      "grammar (Suc (Suc n)) Parse_factor (if has_space self then skip_space self else self) =
         Some (Inr (None, s'))"
      unfolding assms(4) by simp
    from parse_expression_lift(2)[OF this _ refl] True show ?thesis by simp
  next
    case False
    with parse_power_rule[OF assms(1-3)] f obtain node where
      r: "grammar (Suc (Suc n)) Parse_factor (if has_space self then skip_space self else self) =
         Some (Inr (Some node, s2))"
      unfolding assms(4) by simp
    from parse_expression_lift(3)[OF r _ refl] r f False show ?thesis
      unfolding assms(4) by simp
  qed
qed

text \<open>The unary minus and the sum, for every state of the parser and all operands.\<close>

lemma parse_factor_negative:
  "peek st = ''-'' \<Longrightarrow> grammar (Suc n) Parse_factor st = parse_negative_expression n st"
  by (simp add: has_bitwise_negated_expression_def has_negative_expression_def)

lemma parse_negative_expression_rule:
  assumes "grammar n Parse_factor (snd (get True st)) = Some (Inr (Some operand, s1))"
  shows "parse_negative_expression (Suc n) st =
     (case multiply_by_minus_one s1 operand of
        Inl e \<Rightarrow> Some (Inl e)
      | Inr r \<Rightarrow> Some (Inr (Some r, s1)))"
  using assms by (simp add: on_node_def return_node_def Let_def split: sum.splits)

lemma unary_minus_rule:
  assumes "peek st = ''-''"
    and "grammar n Parse_factor (snd (get True st)) = Some (Inr (Some operand, s1))"
  shows "grammar (Suc (Suc n)) Parse_factor st =
     (case multiply_by_minus_one s1 operand of
        Inl e \<Rightarrow> Some (Inl e)
      | Inr r \<Rightarrow> Some (Inr (Some r, s1)))"
  using parse_factor_negative[OF assms(1), of "Suc n"] parse_negative_expression_rule[OF assms(2)]
  by simp

lemma unary_minus_expression:
  assumes "peek st = ''-''"
    and "grammar n Parse_factor (snd (get True st)) = Some (Inr (Some operand, s1))"
    and "st = (if has_space self then skip_space self else self)"
    and "idx s1 = length (expr s1)"
  shows "parse_expression self = grammar (Suc (Suc n)) Parse_factor st"
proof (cases "multiply_by_minus_one s1 operand")
  case (Inl e)
  with unary_minus_rule[OF assms(1,2)] have
    r: "grammar (Suc (Suc n)) Parse_factor (if has_space self then skip_space self else self) =
       Some (Inl e)"
    unfolding assms(3) by simp
  from parse_expression_lift(1)[OF r _ refl] r show ?thesis
    unfolding assms(3) by simp
next
  case (Inr node)
  with unary_minus_rule[OF assms(1,2)] have
    r: "grammar (Suc (Suc n)) Parse_factor (if has_space self then skip_space self else self) =
       Some (Inr (Some node, s1))"
    unfolding assms(3) by simp
  from parse_expression_lift(3)[OF r _ refl assms(4)] r show ?thesis
    unfolding assms(3) by simp
qed

lemma sum_loop_minus:
  assumes "peek st = ''-''"
    and "grammar n Parse_product (snd (get True st)) = Some (Inr (Some operand, s1))"
  shows "grammar (Suc n) (Sum_loop acc) st =
     (case multiply_by_minus_one s1 operand of
        Inl e \<Rightarrow> Some (Inl e)
      | Inr r \<Rightarrow> grammar n (Sum_loop (append_child acc r)) s1)"
  using assms by (simp add: on_node_def Let_def)

lemma sum_loop_plus:
  assumes "peek st = ''+''"
    and "grammar n Parse_product (snd (get True st)) = Some (Inr (Some operand, s1))"
  shows "grammar (Suc n) (Sum_loop acc) st = grammar n (Sum_loop (append_child acc operand)) s1"
  using assms by (simp add: on_node_def Let_def)

lemma sum_loop_end:
  assumes "peek st \<noteq> ''+''" and "peek st \<noteq> ''-''"
  shows "grammar (Suc n) (Sum_loop acc) st = Some (Inr (Some acc, st))"
  using assms by (simp add: return_node_def)

lemma parse_sum_enter:
  assumes "grammar n Parse_product st = Some (Inr (Some left, s1))"
    and "peek s1 = ''+'' \<or> peek s1 = ''-''"
  shows "parse_sum (Suc n) st =
     grammar n (Sum_loop (Node SUMMATION (modulus s1) (modRed s1) [left] 0 [])) s1"
  using assms
  by (auto simp: on_node_def new_node_def Node_init_def append_child_def)

lemma subtraction_rule:
  assumes "grammar n Parse_product st = Some (Inr (Some left, s1))"
    and "peek s1 = ''-''"
    and "grammar n Parse_product (snd (get True s1)) = Some (Inr (Some right, s2))"
    and "peek s2 \<noteq> ''+''" and "peek s2 \<noteq> ''-''"
  shows "parse_sum (Suc (Suc (Suc n))) st =
     (case multiply_by_minus_one s2 right of
        Inl e \<Rightarrow> Some (Inl e)
      | Inr r \<Rightarrow> Some (Inr (Some (Node SUMMATION (modulus s1) (modRed s1) [left, r] 0 []), s2)))"
proof -
  have a: "grammar (Suc (Suc n)) Parse_product st = Some (Inr (Some left, s1))"
    using grammar_mono[OF _ assms(1), of "Suc (Suc n)"] by simp
  have b: "grammar (Suc n) Parse_product (snd (get True s1)) = Some (Inr (Some right, s2))"
    using grammar_mono[OF _ assms(3), of "Suc n"] by simp
  have "parse_sum (Suc (Suc (Suc n))) st =
      grammar (Suc (Suc n)) (Sum_loop (Node SUMMATION (modulus s1) (modRed s1) [left] 0 [])) s1"
    using assms(2) by (intro parse_sum_enter[OF a]) simp
  also have "\<dots> = (case multiply_by_minus_one s2 right of
        Inl e \<Rightarrow> Some (Inl e)
      | Inr r \<Rightarrow> grammar (Suc n)
          (Sum_loop (append_child (Node SUMMATION (modulus s1) (modRed s1) [left] 0 []) r)) s2)"
    by (rule sum_loop_minus[OF assms(2) b])
  also have "\<dots> = (case multiply_by_minus_one s2 right of
        Inl e \<Rightarrow> Some (Inl e)
      | Inr r \<Rightarrow> Some (Inr (Some (Node SUMMATION (modulus s1) (modRed s1) [left, r] 0 []), s2)))"
    by (simp only: sum_loop_end[OF assms(4,5)]) (simp add: append_child_def split: sum.splits)
  finally show ?thesis .
qed

lemma subtraction_expression:
  assumes "grammar n Parse_product st = Some (Inr (Some left, s1))"
    and "peek s1 = ''-''"
    and "grammar n Parse_product (snd (get True s1)) = Some (Inr (Some right, s2))"
    and "st = (if has_space self then skip_space self else self)"
    and "idx s2 = length (expr s2)"
  shows "parse_expression self = parse_sum (Suc (Suc (Suc n))) st"
proof -
  from peek_at_end[OF assms(5)] have p: "peek s2 \<noteq> ''+''" "peek s2 \<noteq> ''-''" by simp_all
  note s = subtraction_rule[OF assms(1-3) p]
  show ?thesis
  proof (cases "multiply_by_minus_one s2 right")
    case (Inl e)
    with s have
      r: "grammar (Suc (Suc (Suc n))) Parse_sum (if has_space self then skip_space self else self) =
         Some (Inl e)"
      unfolding assms(4) by simp
    from parse_expression_lift(1)[OF r _ refl] r show ?thesis
      unfolding assms(4) by simp
  next
    case (Inr node)
    with s obtain t where
      r: "grammar (Suc (Suc (Suc n))) Parse_sum (if has_space self then skip_space self else self) =
         Some (Inr (Some t, s2))"
      unfolding assms(4) by simp
    from parse_expression_lift(3)[OF r _ refl assms(5)] r show ?thesis
      unfolding assms(4) by simp
  qed
qed

section \<open>The claims about the parser\<close>

subsection \<open>Claim C3: the modulus on the nodes\<close>

text \<open>
  Claim C3 does not hold of the code: \<^verbatim>\<open>Parser.__init__\<close> ignores its argument \<open>modulus\<close>
  and stores 32, so the nodes of the tree that \<open>parse\<close> returns for the bit width 8 carry
  the modulus 32 and not \<open>2 ^ 8\<close>. The payload of a literal is its value, not reduced:
  \<open>1000\<close> stays 1000 for the bit width 8.
\<close>

theorem parse_modulus_is_32:
  "parse f g ''x'' 8 True False False = Some (Inr (Some (Node VARIABLE 32 True [] 0 ''x''))) \<and>
   node_modulus (Node VARIABLE 32 True [] 0 ''x'') \<noteq> 2 ^ 8 \<and>
   parse f g ''1000'' 8 True False False = Some (Inr (Some (Node CONSTANT 32 True [] 1000 [])))"
  by code_simp

subsection \<open>Claim C4: marking linear subexpressions without refining\<close>

text \<open>
  Claim C4, as amended. With \<open>marklinear\<close> requested and \<open>refine\<close> not, \<open>parse\<close> first
  parses the text, which always returns. It ends with the configuration error
  (\<^verbatim>\<open>sys.exit\<close>) exactly when the text parses to a tree; when the text does not parse, it
  returns \<^verbatim>\<open>None\<close> and raises no configuration error, and an exception of the parser
  is passed on.
\<close>

theorem parse_marklinear_without_refine:
  "\<exists>out. parse_expression (Parser_init e (2 ^ bitCount) reduceConstants) = Some out \<and>
     parse f g e bitCount reduceConstants False True =
       (case out of
          Inl exc \<Rightarrow> Some (Inl exc)
        | Inr (None, self) \<Rightarrow> Some (Inr None)
        | Inr (Some root, self) \<Rightarrow>
            Some (Inl (SystemExit ''Error: Refine before marking linear subexpressions!'')))"
  using parse_expression_returns[of "Parser_init e (2 ^ bitCount) reduceConstants"]
  by (auto simp: parse_def split: sum.splits option.splits)

text \<open>
  Claim C4 as stated fails on the code: on the text \<open>a+\<close>, which does not parse, the call
  with \<open>marklinear\<close> and without \<open>refine\<close> returns \<^verbatim>\<open>None\<close>; on the text \<open>a\<close> the same call
  exits. The outcome depends on the text.
\<close>

theorem parse_marklinear_depends_on_text_counterexample:
  "parse id id ''a+'' 8 True False True = Some (Inr None) \<and>
   parse id id ''a'' 8 True False True =
     Some (Inl (SystemExit ''Error: Refine before marking linear subexpressions!''))"
  by code_simp

theorem parse_marklinear_without_refine_witness:
  "parse id id ''a*b'' 8 True False True =
     Some (Inl (SystemExit ''Error: Refine before marking linear subexpressions!'')) \<and>
   (\<exists>root self. parse_expression (Parser_init ''a*b'' (2 ^ 8) True) = Some (Inr (Some root, self)))"
proof -
  have p: "parse_expression (Parser_init ''a*b'' (2 ^ 8) True) =
      Some (Inr (Some (Node PRODUCT 32 True
                   [Node VARIABLE 32 True [] 0 ''a'', Node VARIABLE 32 True [] 0 ''b''] 0 []),
                 \<lparr>expr = ''a*b'', modulus = 32, modRed = True, idx = 3, error = []\<rparr>))"
    by code_simp
  from parse_marklinear_without_refine[of "''a*b''" 8 True id id] p show ?thesis
    by simp
qed

subsection \<open>Claim C5: shifts and powers\<close>

text \<open>
  Claim C5. In every state of the parser, a sum \<open>base\<close> followed by \<open><<\<close> and a sum \<open>op\<close>
  is the product of \<open>base\<close> and the power of 2 to \<open>op\<close>, and a terminal followed by
  \<open>**\<close> and a terminal is a power node. If the same operator follows the right operand,
  the method returns \<^verbatim>\<open>None\<close> with the message about the nested operator, and no operand
  is associated with it; where this happens at the start of the text, \<^verbatim>\<open>parse_expression\<close>
  returns no tree. Where the right operand ends the text, \<^verbatim>\<open>parse_expression\<close> returns
  the product, or the power. A shift that returns a node is never followed by \<open><<\<close>, and
  a power that returns a node never by \<open>**\<close>. So \<open>a<<b\<close> parses to the product of \<open>a\<close>
  and the power of 2 to \<open>b\<close>, \<open>a**b\<close> to a power node, and \<open>a<<b<<c\<close> and \<open>a**b**c\<close> do
  not parse.
\<close>

theorem parse_shift_and_power:
  "(parse_sum n st = Some (Inr (Some base, s1)) \<longrightarrow> has_lshift s1 \<longrightarrow>
      parse_sum n (snd (get True (snd (get True s1)))) = Some (Inr (Some op, s2)) \<longrightarrow>
      parse_shift (Suc n) st =
        (if has_lshift s2
         then Some (Inr (None, s2\<lparr>error := ''Disallowed nested lshift operator near '' @ peek s2\<rparr>))
         else Some (Inr (Some (Node PRODUCT (modulus s1) (modRed s1)
                    [base, Node POWER (modulus s2) (modRed s2)
                             [Node CONSTANT (modulus s2) (modRed s2) [] 2 [], op] 0 []] 0 []), s2))) \<and>
      (st = (if has_space self then skip_space self else self) \<longrightarrow>
         (if has_lshift s2 then \<exists>s3. parse_expression self = Some (Inr (None, s3))
          else idx s2 = length (expr s2) \<longrightarrow>
                 parse_expression self = parse_shift (Suc n) st))) \<and>
   (parse_terminal n st = Some (Inr (Some base, s1)) \<longrightarrow> has_power s1 \<longrightarrow>
      parse_terminal n (snd (get True (snd (get True s1)))) = Some (Inr (Some op, s2)) \<longrightarrow>
      parse_power (Suc n) st =
        (if has_power s2
         then Some (Inr (None, s2\<lparr>error := ''Disallowed nested power operator near '' @ peek s2\<rparr>))
         else Some (Inr (Some (Node POWER (modulus s1) (modRed s1) [base, op] 0 []), s2))) \<and>
      (st = (if has_space self then skip_space self else self) \<longrightarrow>
         (if has_power s2 then \<exists>s3. parse_expression self = Some (Inr (None, s3))
          else idx s2 = length (expr s2) \<longrightarrow>
                 parse_expression self = parse_power (Suc n) st))) \<and>
   (parse_shift n st = Some (Inr (Some node, s')) \<longrightarrow> \<not> has_lshift s') \<and>
   (parse_power n st = Some (Inr (Some node, s')) \<longrightarrow> \<not> has_power s') \<and>
   parse_expression (Parser_init ''a<<b'' m r) =
     Some (Inr (Some (Node PRODUCT 32 r
                   [Node VARIABLE 32 r [] 0 ''a'',
                    Node POWER 32 r
                      [Node CONSTANT 32 r [] 2 [], Node VARIABLE 32 r [] 0 ''b''] 0 []] 0 []),
                \<lparr>expr = ''a<<b'', modulus = 32, modRed = r, idx = 4, error = []\<rparr>)) \<and>
   parse_expression (Parser_init ''a**b'' m r) =
     Some (Inr (Some (Node POWER 32 r
                   [Node VARIABLE 32 r [] 0 ''a'', Node VARIABLE 32 r [] 0 ''b''] 0 []),
                \<lparr>expr = ''a**b'', modulus = 32, modRed = r, idx = 4, error = []\<rparr>)) \<and>
   parse_shift 9 (Parser_init ''a<<b<<c'' m r) =
     Some (Inr (None, \<lparr>expr = ''a<<b<<c'', modulus = 32, modRed = r, idx = 4,
                        error = ''Disallowed nested lshift operator near <''\<rparr>)) \<and>
   parse_power 3 (Parser_init ''a**b**c'' m r) =
     Some (Inr (None, \<lparr>expr = ''a**b**c'', modulus = 32, modRed = r, idx = 4,
                        error = ''Disallowed nested power operator near *''\<rparr>)) \<and>
   parse f g ''a<<b<<c'' bitCount r False False = Some (Inr None) \<and>
   parse f g ''a**b**c'' bitCount r False False = Some (Inr None)"
proof -
  have a: "parse_sum n st = Some (Inr (Some base, s1)) \<longrightarrow> has_lshift s1 \<longrightarrow>
      parse_sum n (snd (get True (snd (get True s1)))) = Some (Inr (Some op, s2)) \<longrightarrow>
      parse_shift (Suc n) st =
        (if has_lshift s2
         then Some (Inr (None, s2\<lparr>error := ''Disallowed nested lshift operator near '' @ peek s2\<rparr>))
         else Some (Inr (Some (Node PRODUCT (modulus s1) (modRed s1)
                    [base, Node POWER (modulus s2) (modRed s2)
                             [Node CONSTANT (modulus s2) (modRed s2) [] 2 [], op] 0 []] 0 []), s2))) \<and>
      (st = (if has_space self then skip_space self else self) \<longrightarrow>
         (if has_lshift s2 then \<exists>s3. parse_expression self = Some (Inr (None, s3))
          else idx s2 = length (expr s2) \<longrightarrow>
                 parse_expression self = parse_shift (Suc n) st))"
    using parse_shift_rule[of n st base s1 op s2]
      parse_shift_expression[of n st base s1 op s2 self]
    by blast
  have b: "parse_terminal n st = Some (Inr (Some base, s1)) \<longrightarrow> has_power s1 \<longrightarrow>
      parse_terminal n (snd (get True (snd (get True s1)))) = Some (Inr (Some op, s2)) \<longrightarrow>
      parse_power (Suc n) st =
        (if has_power s2
         then Some (Inr (None, s2\<lparr>error := ''Disallowed nested power operator near '' @ peek s2\<rparr>))
         else Some (Inr (Some (Node POWER (modulus s1) (modRed s1) [base, op] 0 []), s2))) \<and>
      (st = (if has_space self then skip_space self else self) \<longrightarrow>
         (if has_power s2 then \<exists>s3. parse_expression self = Some (Inr (None, s3))
          else idx s2 = length (expr s2) \<longrightarrow>
                 parse_expression self = parse_power (Suc n) st))"
    using parse_power_rule[of n st base s1 op s2]
      parse_power_expression[of n st base s1 op s2 self]
    by blast
  have c: "parse_shift n st = Some (Inr (Some node, s')) \<longrightarrow> \<not> has_lshift s'"
    by (rule impI) (rule parse_shift_post)
  have d: "parse_power n st = Some (Inr (Some node, s')) \<longrightarrow> \<not> has_power s'"
    by (rule impI) (rule parse_power_post)
  have e: "parse_expression (Parser_init ''a<<b'' m r) =
     Some (Inr (Some (Node PRODUCT 32 r
                   [Node VARIABLE 32 r [] 0 ''a'',
                    Node POWER 32 r
                      [Node CONSTANT 32 r [] 2 [], Node VARIABLE 32 r [] 0 ''b''] 0 []] 0 []),
                \<lparr>expr = ''a<<b'', modulus = 32, modRed = r, idx = 4, error = []\<rparr>)) \<and>
   parse_expression (Parser_init ''a**b'' m r) =
     Some (Inr (Some (Node POWER 32 r
                   [Node VARIABLE 32 r [] 0 ''a'', Node VARIABLE 32 r [] 0 ''b''] 0 []),
                \<lparr>expr = ''a**b'', modulus = 32, modRed = r, idx = 4, error = []\<rparr>)) \<and>
   parse_shift 9 (Parser_init ''a<<b<<c'' m r) =
     Some (Inr (None, \<lparr>expr = ''a<<b<<c'', modulus = 32, modRed = r, idx = 4,
                        error = ''Disallowed nested lshift operator near <''\<rparr>)) \<and>
   parse_power 3 (Parser_init ''a**b**c'' m r) =
     Some (Inr (None, \<lparr>expr = ''a**b**c'', modulus = 32, modRed = r, idx = 4,
                        error = ''Disallowed nested power operator near *''\<rparr>)) \<and>
   parse f g ''a<<b<<c'' bitCount r False False = Some (Inr None) \<and>
   parse f g ''a**b**c'' bitCount r False False = Some (Inr None)"
    by code_simp
  from a b c d e show ?thesis by blast
qed

theorem parse_shift_and_power_witness:
  "parse_sum 6 (\<lparr>expr = ''a<<b'', modulus = 32, modRed = True, idx = 0, error = []\<rparr>) = Some (Inr (Some (Node VARIABLE 32 True [] 0 ''a''), \<lparr>expr = ''a<<b'', modulus = 32, modRed = True, idx = 1, error = []\<rparr>)) \<and>
   has_lshift (\<lparr>expr = ''a<<b'', modulus = 32, modRed = True, idx = 1, error = []\<rparr>) \<and>
   parse_sum 6 (snd (get True (snd (get True (\<lparr>expr = ''a<<b'', modulus = 32, modRed = True, idx = 1, error = []\<rparr>))))) = Some (Inr (Some (Node VARIABLE 32 True [] 0 ''b''), \<lparr>expr = ''a<<b'', modulus = 32, modRed = True, idx = 4, error = []\<rparr>)) \<and>
   \<not> has_lshift (\<lparr>expr = ''a<<b'', modulus = 32, modRed = True, idx = 4, error = []\<rparr>) \<and>
   parse_shift (Suc 6) (\<lparr>expr = ''a<<b'', modulus = 32, modRed = True, idx = 0, error = []\<rparr>) = Some (Inr (Some (Node PRODUCT 32 True [Node VARIABLE 32 True [] 0 ''a'', Node POWER 32 True [Node CONSTANT 32 True [] 2 [], Node VARIABLE 32 True [] 0 ''b''] 0 []] 0 []), \<lparr>expr = ''a<<b'', modulus = 32, modRed = True, idx = 4, error = []\<rparr>)) \<and>
   parse_expression (\<lparr>expr = ''a<<b'', modulus = 32, modRed = True, idx = 0, error = []\<rparr>) = Some (Inr (Some (Node PRODUCT 32 True [Node VARIABLE 32 True [] 0 ''a'', Node POWER 32 True [Node CONSTANT 32 True [] 2 [], Node VARIABLE 32 True [] 0 ''b''] 0 []] 0 []), \<lparr>expr = ''a<<b'', modulus = 32, modRed = True, idx = 4, error = []\<rparr>)) \<and>
   parse_sum 6 (\<lparr>expr = ''a<<b<<c'', modulus = 32, modRed = True, idx = 0, error = []\<rparr>) = Some (Inr (Some (Node VARIABLE 32 True [] 0 ''a''), \<lparr>expr = ''a<<b<<c'', modulus = 32, modRed = True, idx = 1, error = []\<rparr>)) \<and>
   has_lshift (\<lparr>expr = ''a<<b<<c'', modulus = 32, modRed = True, idx = 1, error = []\<rparr>) \<and>
   parse_sum 6 (snd (get True (snd (get True (\<lparr>expr = ''a<<b<<c'', modulus = 32, modRed = True, idx = 1, error = []\<rparr>))))) = Some (Inr (Some (Node VARIABLE 32 True [] 0 ''b''), \<lparr>expr = ''a<<b<<c'', modulus = 32, modRed = True, idx = 4, error = []\<rparr>)) \<and>
   has_lshift (\<lparr>expr = ''a<<b<<c'', modulus = 32, modRed = True, idx = 4, error = []\<rparr>) \<and>
   parse_shift (Suc 6) (\<lparr>expr = ''a<<b<<c'', modulus = 32, modRed = True, idx = 0, error = []\<rparr>) = Some (Inr (None, \<lparr>expr = ''a<<b<<c'', modulus = 32, modRed = True, idx = 4, error = ''Disallowed nested lshift operator near <''\<rparr>)) \<and>
   (\<exists>s3. parse_expression (\<lparr>expr = ''a<<b<<c'', modulus = 32, modRed = True, idx = 0, error = []\<rparr>) = Some (Inr (None, s3))) \<and>
   parse_terminal 2 (\<lparr>expr = ''a**b'', modulus = 32, modRed = True, idx = 0, error = []\<rparr>) = Some (Inr (Some (Node VARIABLE 32 True [] 0 ''a''), \<lparr>expr = ''a**b'', modulus = 32, modRed = True, idx = 1, error = []\<rparr>)) \<and>
   has_power (\<lparr>expr = ''a**b'', modulus = 32, modRed = True, idx = 1, error = []\<rparr>) \<and>
   parse_terminal 2 (snd (get True (snd (get True (\<lparr>expr = ''a**b'', modulus = 32, modRed = True, idx = 1, error = []\<rparr>))))) = Some (Inr (Some (Node VARIABLE 32 True [] 0 ''b''), \<lparr>expr = ''a**b'', modulus = 32, modRed = True, idx = 4, error = []\<rparr>)) \<and>
   \<not> has_power (\<lparr>expr = ''a**b'', modulus = 32, modRed = True, idx = 4, error = []\<rparr>) \<and>
   parse_power (Suc 2) (\<lparr>expr = ''a**b'', modulus = 32, modRed = True, idx = 0, error = []\<rparr>) = Some (Inr (Some (Node POWER 32 True [Node VARIABLE 32 True [] 0 ''a'', Node VARIABLE 32 True [] 0 ''b''] 0 []), \<lparr>expr = ''a**b'', modulus = 32, modRed = True, idx = 4, error = []\<rparr>)) \<and>
   parse_expression (\<lparr>expr = ''a**b'', modulus = 32, modRed = True, idx = 0, error = []\<rparr>) = Some (Inr (Some (Node POWER 32 True [Node VARIABLE 32 True [] 0 ''a'', Node VARIABLE 32 True [] 0 ''b''] 0 []), \<lparr>expr = ''a**b'', modulus = 32, modRed = True, idx = 4, error = []\<rparr>)) \<and>
   parse_terminal 2 (\<lparr>expr = ''a**b**c'', modulus = 32, modRed = True, idx = 0, error = []\<rparr>) = Some (Inr (Some (Node VARIABLE 32 True [] 0 ''a''), \<lparr>expr = ''a**b**c'', modulus = 32, modRed = True, idx = 1, error = []\<rparr>)) \<and>
   has_power (\<lparr>expr = ''a**b**c'', modulus = 32, modRed = True, idx = 1, error = []\<rparr>) \<and>
   parse_terminal 2 (snd (get True (snd (get True (\<lparr>expr = ''a**b**c'', modulus = 32, modRed = True, idx = 1, error = []\<rparr>))))) = Some (Inr (Some (Node VARIABLE 32 True [] 0 ''b''), \<lparr>expr = ''a**b**c'', modulus = 32, modRed = True, idx = 4, error = []\<rparr>)) \<and>
   has_power (\<lparr>expr = ''a**b**c'', modulus = 32, modRed = True, idx = 4, error = []\<rparr>) \<and>
   parse_power (Suc 2) (\<lparr>expr = ''a**b**c'', modulus = 32, modRed = True, idx = 0, error = []\<rparr>) = Some (Inr (None, \<lparr>expr = ''a**b**c'', modulus = 32, modRed = True, idx = 4, error = ''Disallowed nested power operator near *''\<rparr>)) \<and>
   (\<exists>s3. parse_expression (\<lparr>expr = ''a**b**c'', modulus = 32, modRed = True, idx = 0, error = []\<rparr>) = Some (Inr (None, s3)))"
proof -
  have h1:
    "parse_sum 6 (\<lparr>expr = ''a<<b'', modulus = 32, modRed = True, idx = 0, error = []\<rparr>) = Some (Inr (Some (Node VARIABLE 32 True [] 0 ''a''), \<lparr>expr = ''a<<b'', modulus = 32, modRed = True, idx = 1, error = []\<rparr>)) \<and>
     has_lshift (\<lparr>expr = ''a<<b'', modulus = 32, modRed = True, idx = 1, error = []\<rparr>) \<and>
     parse_sum 6 (snd (get True (snd (get True (\<lparr>expr = ''a<<b'', modulus = 32, modRed = True, idx = 1, error = []\<rparr>))))) = Some (Inr (Some (Node VARIABLE 32 True [] 0 ''b''), \<lparr>expr = ''a<<b'', modulus = 32, modRed = True, idx = 4, error = []\<rparr>)) \<and>
     \<not> has_lshift (\<lparr>expr = ''a<<b'', modulus = 32, modRed = True, idx = 4, error = []\<rparr>) \<and>
     \<not> has_space (\<lparr>expr = ''a<<b'', modulus = 32, modRed = True, idx = 0, error = []\<rparr>)"
    by code_simp
  from h1
    parse_shift_and_power[where n = 6 and st = "\<lparr>expr = ''a<<b'', modulus = 32, modRed = True, idx = 0, error = []\<rparr>" and self = "\<lparr>expr = ''a<<b'', modulus = 32, modRed = True, idx = 0, error = []\<rparr>"
        and base = "Node VARIABLE 32 True [] 0 ''a''" and ?s1.0 = "\<lparr>expr = ''a<<b'', modulus = 32, modRed = True, idx = 1, error = []\<rparr>"
        and op = "Node VARIABLE 32 True [] 0 ''b''" and ?s2.0 = "\<lparr>expr = ''a<<b'', modulus = 32, modRed = True, idx = 4, error = []\<rparr>"]
  have c1:
    "parse_shift (Suc 6) (\<lparr>expr = ''a<<b'', modulus = 32, modRed = True, idx = 0, error = []\<rparr>) = Some (Inr (Some (Node PRODUCT 32 True [Node VARIABLE 32 True [] 0 ''a'', Node POWER 32 True [Node CONSTANT 32 True [] 2 [], Node VARIABLE 32 True [] 0 ''b''] 0 []] 0 []), \<lparr>expr = ''a<<b'', modulus = 32, modRed = True, idx = 4, error = []\<rparr>)) \<and>
     parse_expression (\<lparr>expr = ''a<<b'', modulus = 32, modRed = True, idx = 0, error = []\<rparr>) = Some (Inr (Some (Node PRODUCT 32 True [Node VARIABLE 32 True [] 0 ''a'', Node POWER 32 True [Node CONSTANT 32 True [] 2 [], Node VARIABLE 32 True [] 0 ''b''] 0 []] 0 []), \<lparr>expr = ''a<<b'', modulus = 32, modRed = True, idx = 4, error = []\<rparr>))"
    by simp
  have h2:
    "parse_sum 6 (\<lparr>expr = ''a<<b<<c'', modulus = 32, modRed = True, idx = 0, error = []\<rparr>) = Some (Inr (Some (Node VARIABLE 32 True [] 0 ''a''), \<lparr>expr = ''a<<b<<c'', modulus = 32, modRed = True, idx = 1, error = []\<rparr>)) \<and>
     has_lshift (\<lparr>expr = ''a<<b<<c'', modulus = 32, modRed = True, idx = 1, error = []\<rparr>) \<and>
     parse_sum 6 (snd (get True (snd (get True (\<lparr>expr = ''a<<b<<c'', modulus = 32, modRed = True, idx = 1, error = []\<rparr>))))) = Some (Inr (Some (Node VARIABLE 32 True [] 0 ''b''), \<lparr>expr = ''a<<b<<c'', modulus = 32, modRed = True, idx = 4, error = []\<rparr>)) \<and>
     has_lshift (\<lparr>expr = ''a<<b<<c'', modulus = 32, modRed = True, idx = 4, error = []\<rparr>) \<and>
     \<not> has_space (\<lparr>expr = ''a<<b<<c'', modulus = 32, modRed = True, idx = 0, error = []\<rparr>) \<and>
     peek (\<lparr>expr = ''a<<b<<c'', modulus = 32, modRed = True, idx = 4, error = []\<rparr>) = ''<''"
    by code_simp
  from h2
    parse_shift_and_power[where n = 6 and st = "\<lparr>expr = ''a<<b<<c'', modulus = 32, modRed = True, idx = 0, error = []\<rparr>" and self = "\<lparr>expr = ''a<<b<<c'', modulus = 32, modRed = True, idx = 0, error = []\<rparr>"
        and base = "Node VARIABLE 32 True [] 0 ''a''" and ?s1.0 = "\<lparr>expr = ''a<<b<<c'', modulus = 32, modRed = True, idx = 1, error = []\<rparr>"
        and op = "Node VARIABLE 32 True [] 0 ''b''" and ?s2.0 = "\<lparr>expr = ''a<<b<<c'', modulus = 32, modRed = True, idx = 4, error = []\<rparr>"]
  have c2:
    "parse_shift (Suc 6) (\<lparr>expr = ''a<<b<<c'', modulus = 32, modRed = True, idx = 0, error = []\<rparr>) = Some (Inr (None, \<lparr>expr = ''a<<b<<c'', modulus = 32, modRed = True, idx = 4, error = ''Disallowed nested lshift operator near <''\<rparr>)) \<and>
     (\<exists>s3. parse_expression (\<lparr>expr = ''a<<b<<c'', modulus = 32, modRed = True, idx = 0, error = []\<rparr>) = Some (Inr (None, s3)))"
    by simp
  have h3:
    "parse_terminal 2 (\<lparr>expr = ''a**b'', modulus = 32, modRed = True, idx = 0, error = []\<rparr>) = Some (Inr (Some (Node VARIABLE 32 True [] 0 ''a''), \<lparr>expr = ''a**b'', modulus = 32, modRed = True, idx = 1, error = []\<rparr>)) \<and>
     has_power (\<lparr>expr = ''a**b'', modulus = 32, modRed = True, idx = 1, error = []\<rparr>) \<and>
     parse_terminal 2 (snd (get True (snd (get True (\<lparr>expr = ''a**b'', modulus = 32, modRed = True, idx = 1, error = []\<rparr>))))) = Some (Inr (Some (Node VARIABLE 32 True [] 0 ''b''), \<lparr>expr = ''a**b'', modulus = 32, modRed = True, idx = 4, error = []\<rparr>)) \<and>
     \<not> has_power (\<lparr>expr = ''a**b'', modulus = 32, modRed = True, idx = 4, error = []\<rparr>) \<and>
     \<not> has_space (\<lparr>expr = ''a**b'', modulus = 32, modRed = True, idx = 0, error = []\<rparr>)"
    by code_simp
  from h3
    parse_shift_and_power[where n = 2 and st = "\<lparr>expr = ''a**b'', modulus = 32, modRed = True, idx = 0, error = []\<rparr>" and self = "\<lparr>expr = ''a**b'', modulus = 32, modRed = True, idx = 0, error = []\<rparr>"
        and base = "Node VARIABLE 32 True [] 0 ''a''" and ?s1.0 = "\<lparr>expr = ''a**b'', modulus = 32, modRed = True, idx = 1, error = []\<rparr>"
        and op = "Node VARIABLE 32 True [] 0 ''b''" and ?s2.0 = "\<lparr>expr = ''a**b'', modulus = 32, modRed = True, idx = 4, error = []\<rparr>"]
  have c3:
    "parse_power (Suc 2) (\<lparr>expr = ''a**b'', modulus = 32, modRed = True, idx = 0, error = []\<rparr>) = Some (Inr (Some (Node POWER 32 True [Node VARIABLE 32 True [] 0 ''a'', Node VARIABLE 32 True [] 0 ''b''] 0 []), \<lparr>expr = ''a**b'', modulus = 32, modRed = True, idx = 4, error = []\<rparr>)) \<and>
     parse_expression (\<lparr>expr = ''a**b'', modulus = 32, modRed = True, idx = 0, error = []\<rparr>) = Some (Inr (Some (Node POWER 32 True [Node VARIABLE 32 True [] 0 ''a'', Node VARIABLE 32 True [] 0 ''b''] 0 []), \<lparr>expr = ''a**b'', modulus = 32, modRed = True, idx = 4, error = []\<rparr>))"
    by simp
  have h4:
    "parse_terminal 2 (\<lparr>expr = ''a**b**c'', modulus = 32, modRed = True, idx = 0, error = []\<rparr>) = Some (Inr (Some (Node VARIABLE 32 True [] 0 ''a''), \<lparr>expr = ''a**b**c'', modulus = 32, modRed = True, idx = 1, error = []\<rparr>)) \<and>
     has_power (\<lparr>expr = ''a**b**c'', modulus = 32, modRed = True, idx = 1, error = []\<rparr>) \<and>
     parse_terminal 2 (snd (get True (snd (get True (\<lparr>expr = ''a**b**c'', modulus = 32, modRed = True, idx = 1, error = []\<rparr>))))) = Some (Inr (Some (Node VARIABLE 32 True [] 0 ''b''), \<lparr>expr = ''a**b**c'', modulus = 32, modRed = True, idx = 4, error = []\<rparr>)) \<and>
     has_power (\<lparr>expr = ''a**b**c'', modulus = 32, modRed = True, idx = 4, error = []\<rparr>) \<and>
     \<not> has_space (\<lparr>expr = ''a**b**c'', modulus = 32, modRed = True, idx = 0, error = []\<rparr>) \<and>
     peek (\<lparr>expr = ''a**b**c'', modulus = 32, modRed = True, idx = 4, error = []\<rparr>) = ''*''"
    by code_simp
  from h4
    parse_shift_and_power[where n = 2 and st = "\<lparr>expr = ''a**b**c'', modulus = 32, modRed = True, idx = 0, error = []\<rparr>" and self = "\<lparr>expr = ''a**b**c'', modulus = 32, modRed = True, idx = 0, error = []\<rparr>"
        and base = "Node VARIABLE 32 True [] 0 ''a''" and ?s1.0 = "\<lparr>expr = ''a**b**c'', modulus = 32, modRed = True, idx = 1, error = []\<rparr>"
        and op = "Node VARIABLE 32 True [] 0 ''b''" and ?s2.0 = "\<lparr>expr = ''a**b**c'', modulus = 32, modRed = True, idx = 4, error = []\<rparr>"]
  have c4:
    "parse_power (Suc 2) (\<lparr>expr = ''a**b**c'', modulus = 32, modRed = True, idx = 0, error = []\<rparr>) = Some (Inr (None, \<lparr>expr = ''a**b**c'', modulus = 32, modRed = True, idx = 4, error = ''Disallowed nested power operator near *''\<rparr>)) \<and>
     (\<exists>s3. parse_expression (\<lparr>expr = ''a**b**c'', modulus = 32, modRed = True, idx = 0, error = []\<rparr>) = Some (Inr (None, s3)))"
    by simp
  from c1
    parse_shift_and_power[where n = "Suc 6" and st = "\<lparr>expr = ''a<<b'', modulus = 32, modRed = True, idx = 0, error = []\<rparr>"
        and node = "Node PRODUCT 32 True [Node VARIABLE 32 True [] 0 ''a'', Node POWER 32 True [Node CONSTANT 32 True [] 2 [], Node VARIABLE 32 True [] 0 ''b''] 0 []] 0 []"
        and s' = "\<lparr>expr = ''a<<b'', modulus = 32, modRed = True, idx = 4, error = []\<rparr>"]
  have p1: "\<not> has_lshift (\<lparr>expr = ''a<<b'', modulus = 32, modRed = True, idx = 4, error = []\<rparr>)"
    by simp
  from c3
    parse_shift_and_power[where n = "Suc 2" and st = "\<lparr>expr = ''a**b'', modulus = 32, modRed = True, idx = 0, error = []\<rparr>"
        and node = "Node POWER 32 True [Node VARIABLE 32 True [] 0 ''a'', Node VARIABLE 32 True [] 0 ''b''] 0 []"
        and s' = "\<lparr>expr = ''a**b'', modulus = 32, modRed = True, idx = 4, error = []\<rparr>"]
  have p2: "\<not> has_power (\<lparr>expr = ''a**b'', modulus = 32, modRed = True, idx = 4, error = []\<rparr>)"
    by simp
  from h1 h2 h3 h4 c1 c2 c3 c4 p1 p2 show ?thesis by blast
qed

subsection \<open>Claim C6: negation is multiplication by -1\<close>

lemma multiply_by_minus_one_cases:
  "(ntype node = CONSTANT \<longrightarrow>
      multiply_by_minus_one self node = Inr (set_constant node (- nconstant node))) \<and>
   (ntype node = PRODUCT \<longrightarrow> children node = c # cs \<longrightarrow> ntype c = CONSTANT \<longrightarrow>
      multiply_by_minus_one self node =
        Inr (set_children node (set_constant c (- nconstant c) # cs))) \<and>
   (ntype node = PRODUCT \<longrightarrow> children node = c # cs \<longrightarrow> ntype c \<noteq> CONSTANT \<longrightarrow>
      multiply_by_minus_one self node =
        Inr (set_children node (set_constant (new_node self CONSTANT) (-1) # c # cs))) \<and>
   (ntype node \<noteq> CONSTANT \<longrightarrow> ntype node \<noteq> PRODUCT \<longrightarrow>
      multiply_by_minus_one self node =
        Inr (set_children (new_node self PRODUCT)
               [set_constant (new_node self CONSTANT) (-1), node]))"
  by (simp add: multiply_by_minus_one_def)

text \<open>
  Claim C6. The unary minus and the subtraction negate their operand while parsing: a
  constant gets the negated payload and stays the same node; a product whose first child
  is a constant gets that constant multiplied by -1; any other product gets the constant
  -1 put in front of its children, so no product is nested in a product; and any other
  node becomes the second child of a new product whose first child is the constant -1.
  This is \<^verbatim>\<open>__multiply_by_minus_one\<close>, and in every state of the parser the result of the
  unary minus is \<^verbatim>\<open>__multiply_by_minus_one\<close> of the factor after the \<open>-\<close>; every turn of
  the loop of a sum at a \<open>-\<close> appends \<^verbatim>\<open>__multiply_by_minus_one\<close> of the product after it,
  and at a \<open>+\<close> the product itself; and a product, \<open>-\<close> and a product is the sum of the
  first and of \<^verbatim>\<open>__multiply_by_minus_one\<close> of the second. Where the operand ends the text,
  this is what \<^verbatim>\<open>parse_expression\<close> returns. So \<open>-5\<close> parses to the constant -5,
  \<open>-(a*b)\<close> to the product of -1, \<open>a\<close> and \<open>b\<close>, and \<open>a-5\<close> to the sum of \<open>a\<close> and the
  constant -5.
\<close>

theorem negation_is_multiplication_by_minus_one:
  "(ntype node = CONSTANT \<longrightarrow>
      multiply_by_minus_one self node = Inr (set_constant node (- nconstant node))) \<and>
   (ntype node = PRODUCT \<longrightarrow> children node = c # cs \<longrightarrow> ntype c = CONSTANT \<longrightarrow>
      multiply_by_minus_one self node =
        Inr (set_children node (set_constant c (- nconstant c) # cs))) \<and>
   (ntype node = PRODUCT \<longrightarrow> children node = c # cs \<longrightarrow> ntype c \<noteq> CONSTANT \<longrightarrow>
      multiply_by_minus_one self node =
        Inr (set_children node (set_constant (new_node self CONSTANT) (-1) # c # cs))) \<and>
   (ntype node \<noteq> CONSTANT \<longrightarrow> ntype node \<noteq> PRODUCT \<longrightarrow>
      multiply_by_minus_one self node =
        Inr (set_children (new_node self PRODUCT)
               [set_constant (new_node self CONSTANT) (-1), node])) \<and>
   (grammar n Parse_factor (snd (get True st)) = Some (Inr (Some operand, s1)) \<longrightarrow>
      parse_negative_expression (Suc n) st =
        (case multiply_by_minus_one s1 operand of
           Inl e \<Rightarrow> Some (Inl e)
         | Inr r \<Rightarrow> Some (Inr (Some r, s1)))) \<and>
   (peek st = ''-'' \<longrightarrow>
      grammar n Parse_factor (snd (get True st)) = Some (Inr (Some operand, s1)) \<longrightarrow>
      grammar (Suc (Suc n)) Parse_factor st =
        (case multiply_by_minus_one s1 operand of
           Inl e \<Rightarrow> Some (Inl e)
         | Inr r \<Rightarrow> Some (Inr (Some r, s1))) \<and>
      (st = (if has_space p then skip_space p else p) \<longrightarrow> idx s1 = length (expr s1) \<longrightarrow>
         parse_expression p = grammar (Suc (Suc n)) Parse_factor st)) \<and>
   (peek st = ''-'' \<longrightarrow>
      grammar n Parse_product (snd (get True st)) = Some (Inr (Some operand, s1)) \<longrightarrow>
      grammar (Suc n) (Sum_loop acc) st =
        (case multiply_by_minus_one s1 operand of
           Inl e \<Rightarrow> Some (Inl e)
         | Inr r \<Rightarrow> grammar n (Sum_loop (append_child acc r)) s1)) \<and>
   (peek st = ''+'' \<longrightarrow>
      grammar n Parse_product (snd (get True st)) = Some (Inr (Some operand, s1)) \<longrightarrow>
      grammar (Suc n) (Sum_loop acc) st = grammar n (Sum_loop (append_child acc operand)) s1) \<and>
   (grammar n Parse_product st = Some (Inr (Some left, s1)) \<longrightarrow> peek s1 = ''-'' \<longrightarrow>
      grammar n Parse_product (snd (get True s1)) = Some (Inr (Some right, s2)) \<longrightarrow>
      (peek s2 \<noteq> ''+'' \<longrightarrow> peek s2 \<noteq> ''-'' \<longrightarrow>
         parse_sum (Suc (Suc (Suc n))) st =
           (case multiply_by_minus_one s2 right of
              Inl e \<Rightarrow> Some (Inl e)
            | Inr r \<Rightarrow>
                Some (Inr (Some (Node SUMMATION (modulus s1) (modRed s1) [left, r] 0 []), s2)))) \<and>
      (st = (if has_space p then skip_space p else p) \<longrightarrow> idx s2 = length (expr s2) \<longrightarrow>
         parse_expression p = parse_sum (Suc (Suc (Suc n))) st)) \<and>
parse_expression (Parser_init ''-5'' m r) =
     Some (Inr (Some (Node CONSTANT 32 r [] (- 5) []),
                \<lparr>expr = ''-5'', modulus = 32, modRed = r, idx = 2, error = []\<rparr>)) \<and>
   parse_expression (Parser_init ''-(a*b)'' m r) =
     Some (Inr (Some (Node PRODUCT 32 r
                   [Node CONSTANT 32 r [] (- 1) [], Node VARIABLE 32 r [] 0 ''a'',
                    Node VARIABLE 32 r [] 0 ''b''] 0 []),
                \<lparr>expr = ''-(a*b)'', modulus = 32, modRed = r, idx = 6, error = []\<rparr>)) \<and>
   parse_expression (Parser_init ''a-5'' m r) =
     Some (Inr (Some (Node SUMMATION 32 r
                   [Node VARIABLE 32 r [] 0 ''a'', Node CONSTANT 32 r [] (- 5) []] 0 []),
                \<lparr>expr = ''a-5'', modulus = 32, modRed = r, idx = 3, error = []\<rparr>)) \<and>
   parse_expression (Parser_init ''a-b'' m r) =
     Some (Inr (Some (Node SUMMATION 32 r
                   [Node VARIABLE 32 r [] 0 ''a'',
                    Node PRODUCT 32 r
                      [Node CONSTANT 32 r [] (- 1) [], Node VARIABLE 32 r [] 0 ''b''] 0 []] 0 []),
                \<lparr>expr = ''a-b'', modulus = 32, modRed = r, idx = 3, error = []\<rparr>)) \<and>
   parse_expression (Parser_init ''-3*b'' m r) =
     Some (Inr (Some (Node PRODUCT 32 r
                   [Node CONSTANT 32 r [] (- 3) [], Node VARIABLE 32 r [] 0 ''b''] 0 []),
                \<lparr>expr = ''-3*b'', modulus = 32, modRed = r, idx = 4, error = []\<rparr>))"
proof -
  have u0: "grammar n Parse_factor (snd (get True st)) = Some (Inr (Some operand, s1)) \<longrightarrow>
      parse_negative_expression (Suc n) st =
        (case multiply_by_minus_one s1 operand of
           Inl e \<Rightarrow> Some (Inl e)
         | Inr r \<Rightarrow> Some (Inr (Some r, s1)))"
    using parse_negative_expression_rule[of n st operand s1] by blast
  have u: "peek st = ''-'' \<longrightarrow>
      grammar n Parse_factor (snd (get True st)) = Some (Inr (Some operand, s1)) \<longrightarrow>
      grammar (Suc (Suc n)) Parse_factor st =
        (case multiply_by_minus_one s1 operand of
           Inl e \<Rightarrow> Some (Inl e)
         | Inr r \<Rightarrow> Some (Inr (Some r, s1))) \<and>
      (st = (if has_space p then skip_space p else p) \<longrightarrow> idx s1 = length (expr s1) \<longrightarrow>
         parse_expression p = grammar (Suc (Suc n)) Parse_factor st)"
    using unary_minus_rule[of st n operand s1] unary_minus_expression[of st n operand s1 p]
    by blast
  have bm: "peek st = ''-'' \<longrightarrow>
      grammar n Parse_product (snd (get True st)) = Some (Inr (Some operand, s1)) \<longrightarrow>
      grammar (Suc n) (Sum_loop acc) st =
        (case multiply_by_minus_one s1 operand of
           Inl e \<Rightarrow> Some (Inl e)
         | Inr r \<Rightarrow> grammar n (Sum_loop (append_child acc r)) s1)"
    using sum_loop_minus[of st n operand s1 acc] by blast
  have bp: "peek st = ''+'' \<longrightarrow>
      grammar n Parse_product (snd (get True st)) = Some (Inr (Some operand, s1)) \<longrightarrow>
      grammar (Suc n) (Sum_loop acc) st = grammar n (Sum_loop (append_child acc operand)) s1"
    using sum_loop_plus[of st n operand s1 acc] by blast
  have sub: "grammar n Parse_product st = Some (Inr (Some left, s1)) \<longrightarrow> peek s1 = ''-'' \<longrightarrow>
      grammar n Parse_product (snd (get True s1)) = Some (Inr (Some right, s2)) \<longrightarrow>
      (peek s2 \<noteq> ''+'' \<longrightarrow> peek s2 \<noteq> ''-'' \<longrightarrow>
         parse_sum (Suc (Suc (Suc n))) st =
           (case multiply_by_minus_one s2 right of
              Inl e \<Rightarrow> Some (Inl e)
            | Inr r \<Rightarrow>
                Some (Inr (Some (Node SUMMATION (modulus s1) (modRed s1) [left, r] 0 []), s2)))) \<and>
      (st = (if has_space p then skip_space p else p) \<longrightarrow> idx s2 = length (expr s2) \<longrightarrow>
         parse_expression p = parse_sum (Suc (Suc (Suc n))) st)"
    using subtraction_rule[of n st left s1 right s2]
      subtraction_expression[of n st left s1 right s2 p]
    by blast
  have e: "parse_expression (Parser_init ''-5'' m r) =
     Some (Inr (Some (Node CONSTANT 32 r [] (- 5) []),
                \<lparr>expr = ''-5'', modulus = 32, modRed = r, idx = 2, error = []\<rparr>)) \<and>
   parse_expression (Parser_init ''-(a*b)'' m r) =
     Some (Inr (Some (Node PRODUCT 32 r
                   [Node CONSTANT 32 r [] (- 1) [], Node VARIABLE 32 r [] 0 ''a'',
                    Node VARIABLE 32 r [] 0 ''b''] 0 []),
                \<lparr>expr = ''-(a*b)'', modulus = 32, modRed = r, idx = 6, error = []\<rparr>)) \<and>
   parse_expression (Parser_init ''a-5'' m r) =
     Some (Inr (Some (Node SUMMATION 32 r
                   [Node VARIABLE 32 r [] 0 ''a'', Node CONSTANT 32 r [] (- 5) []] 0 []),
                \<lparr>expr = ''a-5'', modulus = 32, modRed = r, idx = 3, error = []\<rparr>)) \<and>
   parse_expression (Parser_init ''a-b'' m r) =
     Some (Inr (Some (Node SUMMATION 32 r
                   [Node VARIABLE 32 r [] 0 ''a'',
                    Node PRODUCT 32 r
                      [Node CONSTANT 32 r [] (- 1) [], Node VARIABLE 32 r [] 0 ''b''] 0 []] 0 []),
                \<lparr>expr = ''a-b'', modulus = 32, modRed = r, idx = 3, error = []\<rparr>)) \<and>
   parse_expression (Parser_init ''-3*b'' m r) =
     Some (Inr (Some (Node PRODUCT 32 r
                   [Node CONSTANT 32 r [] (- 3) [], Node VARIABLE 32 r [] 0 ''b''] 0 []),
                \<lparr>expr = ''-3*b'', modulus = 32, modRed = r, idx = 4, error = []\<rparr>))"
    by code_simp
  from multiply_by_minus_one_cases[of node self c cs] u0 u bm bp sub e show ?thesis by blast
qed

theorem negation_is_multiplication_by_minus_one_witness:
  "ntype (Node CONSTANT 32 True [] 5 []) = CONSTANT \<and>
   multiply_by_minus_one (\<lparr>expr = ''-(a*b)'', modulus = 32, modRed = True, idx = 0, error = []\<rparr>) (Node CONSTANT 32 True [] 5 []) = Inr (Node CONSTANT 32 True [] (- 5) []) \<and>
   ntype (Node PRODUCT 32 True [Node CONSTANT 32 True [] 3 [], Node VARIABLE 32 True [] 0 ''b''] 0 []) = PRODUCT \<and>
   ntype (Node CONSTANT 32 True [] 3 []) = CONSTANT \<and>
   multiply_by_minus_one (\<lparr>expr = ''-(a*b)'', modulus = 32, modRed = True, idx = 0, error = []\<rparr>) (Node PRODUCT 32 True [Node CONSTANT 32 True [] 3 [], Node VARIABLE 32 True [] 0 ''b''] 0 []) = Inr (Node PRODUCT 32 True [Node CONSTANT 32 True [] (- 3) [], Node VARIABLE 32 True [] 0 ''b''] 0 []) \<and>
   ntype (Node PRODUCT 32 True [Node VARIABLE 32 True [] 0 ''a'', Node VARIABLE 32 True [] 0 ''b''] 0 []) = PRODUCT \<and>
   ntype (Node VARIABLE 32 True [] 0 ''a'') \<noteq> CONSTANT \<and>
   multiply_by_minus_one (\<lparr>expr = ''-(a*b)'', modulus = 32, modRed = True, idx = 0, error = []\<rparr>) (Node PRODUCT 32 True [Node VARIABLE 32 True [] 0 ''a'', Node VARIABLE 32 True [] 0 ''b''] 0 []) = Inr (Node PRODUCT 32 True [Node CONSTANT 32 True [] (- 1) [], Node VARIABLE 32 True [] 0 ''a'', Node VARIABLE 32 True [] 0 ''b''] 0 []) \<and>
   ntype (Node VARIABLE 32 True [] 0 ''a'') \<noteq> PRODUCT \<and>
   multiply_by_minus_one (\<lparr>expr = ''-(a*b)'', modulus = 32, modRed = True, idx = 0, error = []\<rparr>) (Node VARIABLE 32 True [] 0 ''a'') = Inr (Node PRODUCT 32 True [Node CONSTANT 32 True [] (- 1) [], Node VARIABLE 32 True [] 0 ''a''] 0 []) \<and>
   peek (\<lparr>expr = ''-a'', modulus = 32, modRed = True, idx = 0, error = []\<rparr>) = ''-'' \<and>
   grammar 4 Parse_factor (snd (get True (\<lparr>expr = ''-a'', modulus = 32, modRed = True, idx = 0, error = []\<rparr>))) = Some (Inr (Some (Node VARIABLE 32 True [] 0 ''a''), \<lparr>expr = ''-a'', modulus = 32, modRed = True, idx = 2, error = []\<rparr>)) \<and>
   \<not> has_space (\<lparr>expr = ''-a'', modulus = 32, modRed = True, idx = 0, error = []\<rparr>) \<and>
   multiply_by_minus_one (\<lparr>expr = ''-a'', modulus = 32, modRed = True, idx = 2, error = []\<rparr>) (Node VARIABLE 32 True [] 0 ''a'') = Inr (Node PRODUCT 32 True [Node CONSTANT 32 True [] (- 1) [], Node VARIABLE 32 True [] 0 ''a''] 0 []) \<and>
   parse_negative_expression (Suc 4) (\<lparr>expr = ''-a'', modulus = 32, modRed = True, idx = 0, error = []\<rparr>) = Some (Inr (Some (Node PRODUCT 32 True [Node CONSTANT 32 True [] (- 1) [], Node VARIABLE 32 True [] 0 ''a''] 0 []), \<lparr>expr = ''-a'', modulus = 32, modRed = True, idx = 2, error = []\<rparr>)) \<and>
   grammar (Suc (Suc 4)) Parse_factor (\<lparr>expr = ''-a'', modulus = 32, modRed = True, idx = 0, error = []\<rparr>) = Some (Inr (Some (Node PRODUCT 32 True [Node CONSTANT 32 True [] (- 1) [], Node VARIABLE 32 True [] 0 ''a''] 0 []), \<lparr>expr = ''-a'', modulus = 32, modRed = True, idx = 2, error = []\<rparr>)) \<and>
   parse_expression (\<lparr>expr = ''-a'', modulus = 32, modRed = True, idx = 0, error = []\<rparr>) = Some (Inr (Some (Node PRODUCT 32 True [Node CONSTANT 32 True [] (- 1) [], Node VARIABLE 32 True [] 0 ''a''] 0 []), \<lparr>expr = ''-a'', modulus = 32, modRed = True, idx = 2, error = []\<rparr>)) \<and>
   peek (\<lparr>expr = ''a-b'', modulus = 32, modRed = True, idx = 1, error = []\<rparr>) = ''-'' \<and>
   grammar 5 Parse_product (snd (get True (\<lparr>expr = ''a-b'', modulus = 32, modRed = True, idx = 1, error = []\<rparr>))) = Some (Inr (Some (Node VARIABLE 32 True [] 0 ''b''), \<lparr>expr = ''a-b'', modulus = 32, modRed = True, idx = 3, error = []\<rparr>)) \<and>
   multiply_by_minus_one (\<lparr>expr = ''a-b'', modulus = 32, modRed = True, idx = 3, error = []\<rparr>) (Node VARIABLE 32 True [] 0 ''b'') = Inr (Node PRODUCT 32 True [Node CONSTANT 32 True [] (- 1) [], Node VARIABLE 32 True [] 0 ''b''] 0 []) \<and>
   grammar 5 (Sum_loop (append_child (Node SUMMATION 32 True [Node VARIABLE 32 True [] 0 ''a''] 0 []) (Node PRODUCT 32 True [Node CONSTANT 32 True [] (- 1) [], Node VARIABLE 32 True [] 0 ''b''] 0 []))) (\<lparr>expr = ''a-b'', modulus = 32, modRed = True, idx = 3, error = []\<rparr>) = Some (Inr (Some (Node SUMMATION 32 True [Node VARIABLE 32 True [] 0 ''a'', Node PRODUCT 32 True [Node CONSTANT 32 True [] (- 1) [], Node VARIABLE 32 True [] 0 ''b''] 0 []] 0 []), \<lparr>expr = ''a-b'', modulus = 32, modRed = True, idx = 3, error = []\<rparr>)) \<and>
   grammar (Suc 5) (Sum_loop (Node SUMMATION 32 True [Node VARIABLE 32 True [] 0 ''a''] 0 [])) (\<lparr>expr = ''a-b'', modulus = 32, modRed = True, idx = 1, error = []\<rparr>) = Some (Inr (Some (Node SUMMATION 32 True [Node VARIABLE 32 True [] 0 ''a'', Node PRODUCT 32 True [Node CONSTANT 32 True [] (- 1) [], Node VARIABLE 32 True [] 0 ''b''] 0 []] 0 []), \<lparr>expr = ''a-b'', modulus = 32, modRed = True, idx = 3, error = []\<rparr>)) \<and>
   peek (\<lparr>expr = ''a+b'', modulus = 32, modRed = True, idx = 1, error = []\<rparr>) = ''+'' \<and>
   grammar 5 Parse_product (snd (get True (\<lparr>expr = ''a+b'', modulus = 32, modRed = True, idx = 1, error = []\<rparr>))) = Some (Inr (Some (Node VARIABLE 32 True [] 0 ''b''), \<lparr>expr = ''a+b'', modulus = 32, modRed = True, idx = 3, error = []\<rparr>)) \<and>
   grammar 5 (Sum_loop (append_child (Node SUMMATION 32 True [Node VARIABLE 32 True [] 0 ''a''] 0 []) (Node VARIABLE 32 True [] 0 ''b''))) (\<lparr>expr = ''a+b'', modulus = 32, modRed = True, idx = 3, error = []\<rparr>) = Some (Inr (Some (Node SUMMATION 32 True [Node VARIABLE 32 True [] 0 ''a'', Node VARIABLE 32 True [] 0 ''b''] 0 []), \<lparr>expr = ''a+b'', modulus = 32, modRed = True, idx = 3, error = []\<rparr>)) \<and>
   grammar (Suc 5) (Sum_loop (Node SUMMATION 32 True [Node VARIABLE 32 True [] 0 ''a''] 0 [])) (\<lparr>expr = ''a+b'', modulus = 32, modRed = True, idx = 1, error = []\<rparr>) = Some (Inr (Some (Node SUMMATION 32 True [Node VARIABLE 32 True [] 0 ''a'', Node VARIABLE 32 True [] 0 ''b''] 0 []), \<lparr>expr = ''a+b'', modulus = 32, modRed = True, idx = 3, error = []\<rparr>)) \<and>
   grammar 5 Parse_product (\<lparr>expr = ''a-b'', modulus = 32, modRed = True, idx = 0, error = []\<rparr>) = Some (Inr (Some (Node VARIABLE 32 True [] 0 ''a''), \<lparr>expr = ''a-b'', modulus = 32, modRed = True, idx = 1, error = []\<rparr>)) \<and>
   peek (\<lparr>expr = ''a-b'', modulus = 32, modRed = True, idx = 3, error = []\<rparr>) \<noteq> ''+'' \<and>
   peek (\<lparr>expr = ''a-b'', modulus = 32, modRed = True, idx = 3, error = []\<rparr>) \<noteq> ''-'' \<and>
   \<not> has_space (\<lparr>expr = ''a-b'', modulus = 32, modRed = True, idx = 0, error = []\<rparr>) \<and>
   parse_sum (Suc (Suc (Suc 5))) (\<lparr>expr = ''a-b'', modulus = 32, modRed = True, idx = 0, error = []\<rparr>) = Some (Inr (Some (Node SUMMATION 32 True [Node VARIABLE 32 True [] 0 ''a'', Node PRODUCT 32 True [Node CONSTANT 32 True [] (- 1) [], Node VARIABLE 32 True [] 0 ''b''] 0 []] 0 []), \<lparr>expr = ''a-b'', modulus = 32, modRed = True, idx = 3, error = []\<rparr>)) \<and>
   parse_expression (\<lparr>expr = ''a-b'', modulus = 32, modRed = True, idx = 0, error = []\<rparr>) = Some (Inr (Some (Node SUMMATION 32 True [Node VARIABLE 32 True [] 0 ''a'', Node PRODUCT 32 True [Node CONSTANT 32 True [] (- 1) [], Node VARIABLE 32 True [] 0 ''b''] 0 []] 0 []), \<lparr>expr = ''a-b'', modulus = 32, modRed = True, idx = 3, error = []\<rparr>))"
proof -
  have h1:
    "ntype (Node CONSTANT 32 True [] 5 []) = CONSTANT"
    by code_simp
  from h1
    negation_is_multiplication_by_minus_one[where node = "Node CONSTANT 32 True [] 5 []" and self = "\<lparr>expr = ''-(a*b)'', modulus = 32, modRed = True, idx = 0, error = []\<rparr>"]
  have c1:
    "multiply_by_minus_one (\<lparr>expr = ''-(a*b)'', modulus = 32, modRed = True, idx = 0, error = []\<rparr>) (Node CONSTANT 32 True [] 5 []) = Inr (Node CONSTANT 32 True [] (- 5) [])"
    by (simp add: new_node_def Node_init_def)
  have h2:
    "ntype (Node PRODUCT 32 True [Node CONSTANT 32 True [] 3 [], Node VARIABLE 32 True [] 0 ''b''] 0 []) = PRODUCT \<and>
     ntype (Node CONSTANT 32 True [] 3 []) = CONSTANT"
    by code_simp
  from h2
    negation_is_multiplication_by_minus_one[where node = "Node PRODUCT 32 True [Node CONSTANT 32 True [] 3 [], Node VARIABLE 32 True [] 0 ''b''] 0 []" and self = "\<lparr>expr = ''-(a*b)'', modulus = 32, modRed = True, idx = 0, error = []\<rparr>"
        and c = "Node CONSTANT 32 True [] 3 []" and cs = "[Node VARIABLE 32 True [] 0 ''b'']"]
  have c2:
    "multiply_by_minus_one (\<lparr>expr = ''-(a*b)'', modulus = 32, modRed = True, idx = 0, error = []\<rparr>) (Node PRODUCT 32 True [Node CONSTANT 32 True [] 3 [], Node VARIABLE 32 True [] 0 ''b''] 0 []) = Inr (Node PRODUCT 32 True [Node CONSTANT 32 True [] (- 3) [], Node VARIABLE 32 True [] 0 ''b''] 0 [])"
    by (simp add: new_node_def Node_init_def)
  have h3:
    "ntype (Node PRODUCT 32 True [Node VARIABLE 32 True [] 0 ''a'', Node VARIABLE 32 True [] 0 ''b''] 0 []) = PRODUCT \<and>
     ntype (Node VARIABLE 32 True [] 0 ''a'') \<noteq> CONSTANT"
    by code_simp
  from h3
    negation_is_multiplication_by_minus_one[where node = "Node PRODUCT 32 True [Node VARIABLE 32 True [] 0 ''a'', Node VARIABLE 32 True [] 0 ''b''] 0 []" and self = "\<lparr>expr = ''-(a*b)'', modulus = 32, modRed = True, idx = 0, error = []\<rparr>"
        and c = "Node VARIABLE 32 True [] 0 ''a''" and cs = "[Node VARIABLE 32 True [] 0 ''b'']"]
  have c3:
    "multiply_by_minus_one (\<lparr>expr = ''-(a*b)'', modulus = 32, modRed = True, idx = 0, error = []\<rparr>) (Node PRODUCT 32 True [Node VARIABLE 32 True [] 0 ''a'', Node VARIABLE 32 True [] 0 ''b''] 0 []) = Inr (Node PRODUCT 32 True [Node CONSTANT 32 True [] (- 1) [], Node VARIABLE 32 True [] 0 ''a'', Node VARIABLE 32 True [] 0 ''b''] 0 [])"
    by (simp add: new_node_def Node_init_def)
  have h4:
    "ntype (Node VARIABLE 32 True [] 0 ''a'') \<noteq> CONSTANT \<and>
     ntype (Node VARIABLE 32 True [] 0 ''a'') \<noteq> PRODUCT"
    by code_simp
  from h4
    negation_is_multiplication_by_minus_one[where node = "Node VARIABLE 32 True [] 0 ''a''" and self = "\<lparr>expr = ''-(a*b)'', modulus = 32, modRed = True, idx = 0, error = []\<rparr>"]
  have c4:
    "multiply_by_minus_one (\<lparr>expr = ''-(a*b)'', modulus = 32, modRed = True, idx = 0, error = []\<rparr>) (Node VARIABLE 32 True [] 0 ''a'') = Inr (Node PRODUCT 32 True [Node CONSTANT 32 True [] (- 1) [], Node VARIABLE 32 True [] 0 ''a''] 0 [])"
    by (simp add: new_node_def Node_init_def)
  have h5:
    "peek (\<lparr>expr = ''-a'', modulus = 32, modRed = True, idx = 0, error = []\<rparr>) = ''-'' \<and>
     grammar 4 Parse_factor (snd (get True (\<lparr>expr = ''-a'', modulus = 32, modRed = True, idx = 0, error = []\<rparr>))) = Some (Inr (Some (Node VARIABLE 32 True [] 0 ''a''), \<lparr>expr = ''-a'', modulus = 32, modRed = True, idx = 2, error = []\<rparr>)) \<and>
     \<not> has_space (\<lparr>expr = ''-a'', modulus = 32, modRed = True, idx = 0, error = []\<rparr>) \<and>
     multiply_by_minus_one (\<lparr>expr = ''-a'', modulus = 32, modRed = True, idx = 2, error = []\<rparr>) (Node VARIABLE 32 True [] 0 ''a'') = Inr (Node PRODUCT 32 True [Node CONSTANT 32 True [] (- 1) [], Node VARIABLE 32 True [] 0 ''a''] 0 [])"
    by code_simp
  from h5
    negation_is_multiplication_by_minus_one[where n = 4 and st = "\<lparr>expr = ''-a'', modulus = 32, modRed = True, idx = 0, error = []\<rparr>" and p = "\<lparr>expr = ''-a'', modulus = 32, modRed = True, idx = 0, error = []\<rparr>"
        and operand = "Node VARIABLE 32 True [] 0 ''a''" and ?s1.0 = "\<lparr>expr = ''-a'', modulus = 32, modRed = True, idx = 2, error = []\<rparr>"]
  have c5:
    "parse_negative_expression (Suc 4) (\<lparr>expr = ''-a'', modulus = 32, modRed = True, idx = 0, error = []\<rparr>) = Some (Inr (Some (Node PRODUCT 32 True [Node CONSTANT 32 True [] (- 1) [], Node VARIABLE 32 True [] 0 ''a''] 0 []), \<lparr>expr = ''-a'', modulus = 32, modRed = True, idx = 2, error = []\<rparr>)) \<and>
     grammar (Suc (Suc 4)) Parse_factor (\<lparr>expr = ''-a'', modulus = 32, modRed = True, idx = 0, error = []\<rparr>) = Some (Inr (Some (Node PRODUCT 32 True [Node CONSTANT 32 True [] (- 1) [], Node VARIABLE 32 True [] 0 ''a''] 0 []), \<lparr>expr = ''-a'', modulus = 32, modRed = True, idx = 2, error = []\<rparr>)) \<and>
     parse_expression (\<lparr>expr = ''-a'', modulus = 32, modRed = True, idx = 0, error = []\<rparr>) = Some (Inr (Some (Node PRODUCT 32 True [Node CONSTANT 32 True [] (- 1) [], Node VARIABLE 32 True [] 0 ''a''] 0 []), \<lparr>expr = ''-a'', modulus = 32, modRed = True, idx = 2, error = []\<rparr>))"
    by (simp add: new_node_def Node_init_def)
  have h6:
    "peek (\<lparr>expr = ''a-b'', modulus = 32, modRed = True, idx = 1, error = []\<rparr>) = ''-'' \<and>
     grammar 5 Parse_product (snd (get True (\<lparr>expr = ''a-b'', modulus = 32, modRed = True, idx = 1, error = []\<rparr>))) = Some (Inr (Some (Node VARIABLE 32 True [] 0 ''b''), \<lparr>expr = ''a-b'', modulus = 32, modRed = True, idx = 3, error = []\<rparr>)) \<and>
     multiply_by_minus_one (\<lparr>expr = ''a-b'', modulus = 32, modRed = True, idx = 3, error = []\<rparr>) (Node VARIABLE 32 True [] 0 ''b'') = Inr (Node PRODUCT 32 True [Node CONSTANT 32 True [] (- 1) [], Node VARIABLE 32 True [] 0 ''b''] 0 []) \<and>
     grammar 5 (Sum_loop (append_child (Node SUMMATION 32 True [Node VARIABLE 32 True [] 0 ''a''] 0 []) (Node PRODUCT 32 True [Node CONSTANT 32 True [] (- 1) [], Node VARIABLE 32 True [] 0 ''b''] 0 []))) (\<lparr>expr = ''a-b'', modulus = 32, modRed = True, idx = 3, error = []\<rparr>) = Some (Inr (Some (Node SUMMATION 32 True [Node VARIABLE 32 True [] 0 ''a'', Node PRODUCT 32 True [Node CONSTANT 32 True [] (- 1) [], Node VARIABLE 32 True [] 0 ''b''] 0 []] 0 []), \<lparr>expr = ''a-b'', modulus = 32, modRed = True, idx = 3, error = []\<rparr>))"
    by code_simp
  from h6
    negation_is_multiplication_by_minus_one[where n = 5 and st = "\<lparr>expr = ''a-b'', modulus = 32, modRed = True, idx = 1, error = []\<rparr>" and acc = "Node SUMMATION 32 True [Node VARIABLE 32 True [] 0 ''a''] 0 []"
        and operand = "Node VARIABLE 32 True [] 0 ''b''" and ?s1.0 = "\<lparr>expr = ''a-b'', modulus = 32, modRed = True, idx = 3, error = []\<rparr>"]
  have c6:
    "grammar (Suc 5) (Sum_loop (Node SUMMATION 32 True [Node VARIABLE 32 True [] 0 ''a''] 0 [])) (\<lparr>expr = ''a-b'', modulus = 32, modRed = True, idx = 1, error = []\<rparr>) = Some (Inr (Some (Node SUMMATION 32 True [Node VARIABLE 32 True [] 0 ''a'', Node PRODUCT 32 True [Node CONSTANT 32 True [] (- 1) [], Node VARIABLE 32 True [] 0 ''b''] 0 []] 0 []), \<lparr>expr = ''a-b'', modulus = 32, modRed = True, idx = 3, error = []\<rparr>))"
    by (simp add: new_node_def Node_init_def)
  have h7:
    "peek (\<lparr>expr = ''a+b'', modulus = 32, modRed = True, idx = 1, error = []\<rparr>) = ''+'' \<and>
     grammar 5 Parse_product (snd (get True (\<lparr>expr = ''a+b'', modulus = 32, modRed = True, idx = 1, error = []\<rparr>))) = Some (Inr (Some (Node VARIABLE 32 True [] 0 ''b''), \<lparr>expr = ''a+b'', modulus = 32, modRed = True, idx = 3, error = []\<rparr>)) \<and>
     grammar 5 (Sum_loop (append_child (Node SUMMATION 32 True [Node VARIABLE 32 True [] 0 ''a''] 0 []) (Node VARIABLE 32 True [] 0 ''b''))) (\<lparr>expr = ''a+b'', modulus = 32, modRed = True, idx = 3, error = []\<rparr>) = Some (Inr (Some (Node SUMMATION 32 True [Node VARIABLE 32 True [] 0 ''a'', Node VARIABLE 32 True [] 0 ''b''] 0 []), \<lparr>expr = ''a+b'', modulus = 32, modRed = True, idx = 3, error = []\<rparr>))"
    by code_simp
  from h7
    negation_is_multiplication_by_minus_one[where n = 5 and st = "\<lparr>expr = ''a+b'', modulus = 32, modRed = True, idx = 1, error = []\<rparr>" and acc = "Node SUMMATION 32 True [Node VARIABLE 32 True [] 0 ''a''] 0 []"
        and operand = "Node VARIABLE 32 True [] 0 ''b''" and ?s1.0 = "\<lparr>expr = ''a+b'', modulus = 32, modRed = True, idx = 3, error = []\<rparr>"]
  have c7:
    "grammar (Suc 5) (Sum_loop (Node SUMMATION 32 True [Node VARIABLE 32 True [] 0 ''a''] 0 [])) (\<lparr>expr = ''a+b'', modulus = 32, modRed = True, idx = 1, error = []\<rparr>) = Some (Inr (Some (Node SUMMATION 32 True [Node VARIABLE 32 True [] 0 ''a'', Node VARIABLE 32 True [] 0 ''b''] 0 []), \<lparr>expr = ''a+b'', modulus = 32, modRed = True, idx = 3, error = []\<rparr>))"
    by (simp add: new_node_def Node_init_def)
  have h8:
    "grammar 5 Parse_product (\<lparr>expr = ''a-b'', modulus = 32, modRed = True, idx = 0, error = []\<rparr>) = Some (Inr (Some (Node VARIABLE 32 True [] 0 ''a''), \<lparr>expr = ''a-b'', modulus = 32, modRed = True, idx = 1, error = []\<rparr>)) \<and>
     peek (\<lparr>expr = ''a-b'', modulus = 32, modRed = True, idx = 1, error = []\<rparr>) = ''-'' \<and>
     grammar 5 Parse_product (snd (get True (\<lparr>expr = ''a-b'', modulus = 32, modRed = True, idx = 1, error = []\<rparr>))) = Some (Inr (Some (Node VARIABLE 32 True [] 0 ''b''), \<lparr>expr = ''a-b'', modulus = 32, modRed = True, idx = 3, error = []\<rparr>)) \<and>
     peek (\<lparr>expr = ''a-b'', modulus = 32, modRed = True, idx = 3, error = []\<rparr>) \<noteq> ''+'' \<and>
     peek (\<lparr>expr = ''a-b'', modulus = 32, modRed = True, idx = 3, error = []\<rparr>) \<noteq> ''-'' \<and>
     \<not> has_space (\<lparr>expr = ''a-b'', modulus = 32, modRed = True, idx = 0, error = []\<rparr>) \<and>
     multiply_by_minus_one (\<lparr>expr = ''a-b'', modulus = 32, modRed = True, idx = 3, error = []\<rparr>) (Node VARIABLE 32 True [] 0 ''b'') = Inr (Node PRODUCT 32 True [Node CONSTANT 32 True [] (- 1) [], Node VARIABLE 32 True [] 0 ''b''] 0 [])"
    by code_simp
  from h8
    negation_is_multiplication_by_minus_one[where n = 5 and st = "\<lparr>expr = ''a-b'', modulus = 32, modRed = True, idx = 0, error = []\<rparr>" and p = "\<lparr>expr = ''a-b'', modulus = 32, modRed = True, idx = 0, error = []\<rparr>"
        and left = "Node VARIABLE 32 True [] 0 ''a''" and ?s1.0 = "\<lparr>expr = ''a-b'', modulus = 32, modRed = True, idx = 1, error = []\<rparr>"
        and right = "Node VARIABLE 32 True [] 0 ''b''" and ?s2.0 = "\<lparr>expr = ''a-b'', modulus = 32, modRed = True, idx = 3, error = []\<rparr>"]
  have c8:
    "parse_sum (Suc (Suc (Suc 5))) (\<lparr>expr = ''a-b'', modulus = 32, modRed = True, idx = 0, error = []\<rparr>) = Some (Inr (Some (Node SUMMATION 32 True [Node VARIABLE 32 True [] 0 ''a'', Node PRODUCT 32 True [Node CONSTANT 32 True [] (- 1) [], Node VARIABLE 32 True [] 0 ''b''] 0 []] 0 []), \<lparr>expr = ''a-b'', modulus = 32, modRed = True, idx = 3, error = []\<rparr>)) \<and>
     parse_expression (\<lparr>expr = ''a-b'', modulus = 32, modRed = True, idx = 0, error = []\<rparr>) = Some (Inr (Some (Node SUMMATION 32 True [Node VARIABLE 32 True [] 0 ''a'', Node PRODUCT 32 True [Node CONSTANT 32 True [] (- 1) [], Node VARIABLE 32 True [] 0 ''b''] 0 []] 0 []), \<lparr>expr = ''a-b'', modulus = 32, modRed = True, idx = 3, error = []\<rparr>))"
    by (simp add: new_node_def Node_init_def)
  from h1 c1 h2 c2 h3 c3 h4 c4 h5 c5 h6 c6 h7 c7 h8 c8 show ?thesis by blast
qed

subsection \<open>Claim C9: every failure carries an error\<close>

text \<open>
  Claim C9 does not hold of the code: for the text \<open>a[1\<close> the parser returns \<^verbatim>\<open>None\<close> and
  its error message is still empty. \<^verbatim>\<open>__parse_variable\<close> returns \<^verbatim>\<open>None\<close> at an index that
  is not closed without setting \<^verbatim>\<open>__error\<close>, and at the end of the text
  \<^verbatim>\<open>parse_expression\<close> sets none either. No tree is returned.
\<close>

theorem parse_unclosed_index_has_no_error:
  "parse_expression (Parser_init ''a[1'' m r) =
     Some (Inr (None, \<lparr>expr = ''a[1'', modulus = 32, modRed = r, idx = 3, error = []\<rparr>)) \<and>
   parse f g ''a[1'' bitCount r False False = Some (Inr None)"
  by code_simp

end
